theory Spec2Isabelle
  imports Main "HOL-Library.AList"
begin

section \<open>The apply command of nitro: data model\<close>

text \<open>
  The command is built by \<open>NewCommand home docker nitrod output\<close>. Its \<open>RunE\<close> hook
  provisions what the configuration declares, synchronises the proxy and edits the hosts
  file; its \<open>PostRunE\<close> hook removes the managed containers the run did not declare.
  Every collaborator (the container engine, the proxy's RPC client, the backup package,
  the resource packages, the operating system) is a field of the record \<open>env\<close>: the
  answer it gives to a request. The calls made and the lines printed are collected, in
  order, in a trace of events.
\<close>

subsection \<open>Errors\<close>

text \<open>
  A Go \<open>error\<close> value. \<open>ErrNoProxyContainer\<close> is the package-level variable of the
  source; \<open>External\<close> is an error value made by a collaborator; \<open>Errorf\<close> is
  \<open>fmt.Errorf\<close> with no \<open>%w\<close> verb and \<open>Wrapf\<close> is \<open>fmt.Errorf\<close> whose format ends
  in \<open>%w\<close>: it keeps the wrapped error. \<open>nil\<close> is \<open>None\<close> of \<open>error option\<close>.
\<close>

datatype error =
    ErrNoProxyContainer
  | External string
  | Errorf string
  | Wrapf string error

fun Error_text :: "error \<Rightarrow> string" where
  "Error_text ErrNoProxyContainer = ''unable to locate the proxy container''"
| "Error_text (External s) = s"
| "Error_text (Errorf s) = s"
| "Error_text (Wrapf p e) = p @ Error_text e"

fun errors_Is :: "error \<Rightarrow> error \<Rightarrow> bool" where
  "errors_Is (Wrapf p e) target = (Wrapf p e = target \<or> errors_Is e target)"
| "errors_Is e target = (e = target)"

subsection \<open>Containers, networks, configuration\<close>

record container =
  ID :: string
  Names :: "string list"
  Labels :: "string \<rightharpoonup> string"

text \<open>Reading a Go map of strings: a key that is absent reads as the empty string.\<close>

definition label :: "container \<Rightarrow> string \<Rightarrow> string" where
  "label c k = (case Labels c k of None \<Rightarrow> [] | Some v \<Rightarrow> v)"

record NetworkResource =
  network_Name :: string
  network_ID :: string

text \<open>
  The types of the configuration are declared outside the sources read here. A record
  keeps the fields \<open>RunE\<close> reads. Of a declared database it reads none: it passes the
  value on and asks for its hostname, so a database is a value with a tag.
\<close>

datatype Database = DatabaseSpec string

record Mount =
  Path :: string

record Site =
  Hostname :: string
  Aliases :: "string list"

record Services =
  DynamoDB :: bool
  Mailhog :: bool

record Config =
  Databases :: "Database list"
  Mounts :: "Mount list"
  Sites :: "Site list"
  Services :: Services

record backup_Options =
  BackupName :: string
  ContainerID :: string
  ContainerName :: string
  Database :: string
  Home :: string
  Commands :: "string list"

record protob_Site =
  site_Hostname :: string
  site_Aliases :: string
  site_Port :: nat

record ApplyResponse =
  resp_Error :: bool
  resp_Message :: string

type_synonym filter_args = "(string \<times> string) list"

type_synonym knownContainers = "string \<rightharpoonup> bool"

subsection \<open>Events\<close>

datatype event =
    OutInfo "string list"
  | OutPending "string list"
  | OutSuccess "string list"
  | OutWarning
  | OutDone
  | FmtPrintln nat
  | CallConfigLoad string
  | CallNetworkList filter_args
  | CallFindAndStart
  | CallDatabaseStartOrCreate string Database
  | CallMountFindOrCreate string string Mount
  | CallDynamodb bool string
  | CallMailhog bool string
  | CallSiteStartOrCreate string string Site
  | CallPing nat
  | CallApply "(string \<times> protob_Site) list"
  | CallIsUpdated string string "string list"
  | CallExecutable
  | CallExecRun "string list"
  | CallSudoRun "string list"
  | CallContainerList filter_args
  | CallBackupDatabases string string
  | CallBackupPerform backup_Options
  | CallContainerStop string
  | CallContainerRemove string

subsection \<open>The collaborators\<close>

text \<open>
  The label keys are constants of the package \<open>labels\<close>, and \<open>datetime.Parse (time.Now ())\<close>
  and \<open>filepath.Join\<close> are library calls; all are taken as parameters. The clock is read
  once for every database backed up: \<open>timestamp\<close> gives the formatted reading for a
  container and a database. \<open>Ping\<close> answers the probe by its number, counted from 0, and
  the event of a probe carries that number.
\<close>

record env =
  labels_Nitro :: string
  labels_Proxy :: string
  labels_DatabaseEngine :: string
  labels_DatabaseCompatability :: string
  ContainerList :: "filter_args \<Rightarrow> error + container list"
  NetworkList :: "filter_args \<Rightarrow> error + NetworkResource list"
  ContainerStop :: "string \<Rightarrow> error option"
  ContainerRemove :: "string \<Rightarrow> error option"
  backup_Databases :: "string \<Rightarrow> string \<Rightarrow> error + string list"
  backup_Perform :: "backup_Options \<Rightarrow> error option"
  timestamp :: "string \<Rightarrow> string \<Rightarrow> string"
  filepath_Join :: "string list \<Rightarrow> string"
  config_Load :: "string \<Rightarrow> error + Config"
  FindAndStart :: "error option"
  GetHostname :: "Database \<Rightarrow> string"
  database_StartOrCreate :: "string \<Rightarrow> Database \<Rightarrow> error + string"
  mount_FindOrCreate :: "string \<Rightarrow> string \<Rightarrow> Mount \<Rightarrow> error + string"
  dynamodb :: "bool \<Rightarrow> string \<Rightarrow> error + string"
  mailhog :: "bool \<Rightarrow> string \<Rightarrow> error + string"
  site_StartOrCreate :: "string \<Rightarrow> string \<Rightarrow> Site \<Rightarrow> error + string"
  Ping :: "nat \<Rightarrow> error option"
  Apply :: "(string \<times> protob_Site) list \<Rightarrow> error + ApplyResponse"
  Getenv :: "string \<Rightarrow> string"
  flag_skip_hosts :: string
  GOOS :: string
  hostedit_IsUpdated :: "string \<Rightarrow> string \<Rightarrow> string list \<Rightarrow> error + bool"
  os_Executable :: "error + string"
  exec_Run :: "string list \<Rightarrow> error option"
  sudo_Run :: "string list \<Rightarrow> error option"

section \<open>PostRunE: the orphan sweep\<close>

text \<open>How one pass of the body of a loop ends.\<close>

datatype control = Next | Break | Return error | Panic

text \<open>How a hook ends: it returns an error or nil, or the runtime panics.\<close>

datatype outcome = Returned "error option" | Panicked

text \<open>\<open>strings.TrimLeft s cutset\<close>: the leading characters of the cutset are dropped.\<close>

definition TrimLeft :: "string \<Rightarrow> string \<Rightarrow> string" where
  "TrimLeft s cutset = dropWhile (\<lambda>ch. ch \<in> set cutset) s"

text \<open>The bytes of the UTF-8 encoding of the two pictographs the source prints.\<close>

definition floppy_disk :: string where
  "floppy_disk = [CHR 0xF0, CHR 0x9F, CHR 0x92, CHR 0xBE]"

definition smiley :: string where
  "smiley = [CHR 0xF0, CHR 0x9F, CHR 0x98, CHR 0x83]"

text \<open>Lines 94 to 109: the backup options of one database of a container.\<close>

definition backup_opts :: "env \<Rightarrow> string \<Rightarrow> container \<Rightarrow> string \<Rightarrow> string \<Rightarrow> backup_Options" where
  "backup_opts E home c name db =
     (let bn = db @ ''-'' @ timestamp E (ID c) db @ ''.sql''
      in \<lparr> BackupName = bn, ContainerID = ID c, ContainerName = name, Database = db,
           Home = home,
           Commands =
             (if label c (labels_DatabaseCompatability E) = ''postgres''
              then [''pg_dump'', ''--username=nitro'', db, ''-f'', ''/tmp/'' @ bn]
              else [''/usr/bin/mysqldump'', ''-h'', ''127.0.0.1'', ''-unitro'',
                    ''--password=nitro'', db, ''--result-file='' @ ''/tmp/'' @ bn]) \<rparr>)"

text \<open>
  Lines 93 to 122: the loop over the databases. The \<open>break\<close> of line 118 leaves this
  loop, its innermost enclosing \<open>for\<close>: the databases after a failed one are not visited.
\<close>

fun backup_each :: "env \<Rightarrow> string \<Rightarrow> container \<Rightarrow> string \<Rightarrow> string list \<Rightarrow> event list" where
  "backup_each E home c name [] = []"
| "backup_each E home c name (db # dbs) =
     (let opts = backup_opts E home c name db
      in [OutPending [''creating backup'', BackupName opts], CallBackupPerform opts] @
         (case backup_Perform E opts of
            Some err \<Rightarrow> [OutWarning, OutInfo [''Unable to backup database'', db, Error_text err]]
          | None \<Rightarrow> OutDone # backup_each E home c name dbs))"

text \<open>Lines 128 to 136: stop the container, then remove it; either failure is returned.\<close>

definition stop_and_remove :: "env \<Rightarrow> container \<Rightarrow> event list \<times> control" where
  "stop_and_remove E c =
     (case ContainerStop E (ID c) of
        Some err \<Rightarrow> ([CallContainerStop (ID c)], Return err)
      | None \<Rightarrow>
          (case ContainerRemove E (ID c) of
             Some err \<Rightarrow> ([CallContainerStop (ID c), CallContainerRemove (ID c)], Return err)
           | None \<Rightarrow> ([CallContainerStop (ID c), CallContainerRemove (ID c)], Next)))"

text \<open>
  Lines 71 to 137: the body of the loop over the containers. \<open>c.Names[0]\<close> panics when
  the container has no name. The \<open>break\<close> of line 89 is inside no loop but the one over
  the containers, so it leaves that loop.
\<close>

definition sweep_body :: "env \<Rightarrow> string \<Rightarrow> knownContainers \<Rightarrow> container \<Rightarrow> event list \<times> control" where
  "sweep_body E home known c =
     (if known (ID c) \<noteq> None then ([], Next)
      else if label c (labels_Proxy E) \<noteq> [] then ([], Next)
      else
        (case Names c of
           [] \<Rightarrow> ([], Panic)
         | n0 # _ \<Rightarrow>
             (let name = TrimLeft n0 ''/'';
                  removing = [OutInfo [''removing'', name]]
              in if label c (labels_DatabaseEngine E) \<noteq> [] then
                   (case backup_Databases E (ID c) (label c (labels_DatabaseCompatability E)) of
                      Inl err \<Rightarrow>
                        (removing @
                         [CallBackupDatabases (ID c) (label c (labels_DatabaseCompatability E)),
                          OutInfo [''Unable to get the databases from'', name, Error_text err]],
                         Break)
                    | Inr databases \<Rightarrow>
                        (let (evs, ctl) = stop_and_remove E c
                         in (removing @
                             [CallBackupDatabases (ID c) (label c (labels_DatabaseCompatability E))] @
                             backup_each E home c name databases @
                             [OutInfo [''Backups saved in'',
                                       filepath_Join E [home, ''.nitro'', name], floppy_disk]] @
                             evs, ctl)))
                 else
                   (let (evs, ctl) = stop_and_remove E c in (removing @ evs, ctl)))))"

text \<open>Lines 70 to 140: the loop, and the \<open>return nil\<close> after it.\<close>

fun sweep_loop :: "env \<Rightarrow> string \<Rightarrow> knownContainers \<Rightarrow> container list \<Rightarrow> event list \<times> outcome" where
  "sweep_loop E home known [] = ([], Returned None)"
| "sweep_loop E home known (c # cs) =
     (case sweep_body E home known c of
        (evs, Next) \<Rightarrow> (let (evs', r) = sweep_loop E home known cs in (evs @ evs', r))
      | (evs, Break) \<Rightarrow> (evs, Returned None)
      | (evs, Return err) \<Rightarrow> (evs, Returned (Some err))
      | (evs, Panic) \<Rightarrow> (evs, Panicked))"

definition nitro_filter :: "env \<Rightarrow> filter_args" where
  "nitro_filter E = [(''label'', labels_Nitro E @ ''=true'')]"

definition PostRunE :: "env \<Rightarrow> string \<Rightarrow> knownContainers \<Rightarrow> event list \<times> outcome" where
  "PostRunE E home known =
     (case ContainerList E (nitro_filter E) of
        Inl err \<Rightarrow>
          ([CallContainerList (nitro_filter E)],
           Returned (Some (Errorf ''error getting a list of containers'')))
      | Inr containers \<Rightarrow>
          (if length containers = 0 then ([CallContainerList (nitro_filter E)], Returned None)
           else (let (evs, r) = sweep_loop E home known containers
                 in (CallContainerList (nitro_filter E) # evs, r))))"

section \<open>updateProxy: the proxy synchronisation\<close>

text \<open>\<open>strings.Join elems sep\<close>.\<close>

fun Join :: "string list \<Rightarrow> string \<Rightarrow> string" where
  "Join [] sep = []"
| "Join [x] sep = x"
| "Join (x # y # ys) sep = x @ sep @ Join (y # ys) sep"

text \<open>
  Lines 383 to 391: the request's map from hostname to site, as an association list with
  one entry for a key; a later site of the same hostname replaces the earlier entry.
\<close>

fun build_sites :: "Site list \<Rightarrow> (string \<times> protob_Site) list \<Rightarrow> (string \<times> protob_Site) list" where
  "build_sites [] sites = sites"
| "build_sites (s # ss) sites =
     build_sites ss
       (AList.update (Hostname s)
          \<lparr> site_Hostname = Hostname s, site_Aliases = Join (Aliases s) '','',
            site_Port = 8080 \<rparr> sites)"

text \<open>
  Lines 399 to 404: the loop that probes the proxy, from probe \<open>n\<close> on. It has no exit but
  a probe that succeeds, so it may run forever: the value is \<open>None\<close> then, and otherwise
  the number of the probe that succeeded.
\<close>

partial_function (option) ping_loop :: "(nat \<Rightarrow> error option) \<Rightarrow> nat \<Rightarrow> nat option" where
  "ping_loop ping n = (case ping n of None \<Rightarrow> Some n | Some err \<Rightarrow> ping_loop ping (Suc n))"

text \<open>Lines 381 to 417. \<open>None\<close>: the function does not return.\<close>

definition updateProxy :: "env \<Rightarrow> Config \<Rightarrow> (event list \<times> error option) option" where
  "updateProxy E cfg =
     (let sites = build_sites (Sites cfg) []
      in if length sites = 0 then Some ([], None)
         else
           (case ping_loop (Ping E) 0 of
              None \<Rightarrow> None
            | Some k \<Rightarrow>
                Some (map CallPing [0..<Suc k] @ [CallApply sites],
                      (case Apply E sites of
                         Inl err \<Rightarrow> Some err
                       | Inr resp \<Rightarrow>
                           (if resp_Error resp
                            then Some (Errorf (''unable to update the proxy, '' @ resp_Message resp))
                            else None)))))"

section \<open>RunE: provisioning, proxy, hosts file\<close>

definition newline :: string where
  "newline = [CHR 0x0A]"

definition backslash :: string where
  "backslash = [CHR 0x5C]"

text \<open>Lines 167 to 179: the zero value, or the first network of the name.\<close>

fun find_network :: "NetworkResource list \<Rightarrow> NetworkResource" where
  "find_network [] = \<lparr> network_Name = [], network_ID = [] \<rparr>"
| "find_network (n # ns) = (if network_Name n = ''nitro-network'' then n else find_network ns)"

text \<open>
  A phase of \<open>RunE\<close> gives its events, the map of known containers as it leaves it, and
  the error it returns with, if any. \<open>and_then\<close> runs the next phase unless the first
  one returned.
\<close>

type_synonym phase = "event list \<times> knownContainers \<times> error option"

definition and_then :: "phase \<Rightarrow> (knownContainers \<Rightarrow> phase) \<Rightarrow> phase" where
  "and_then p f =
     (case p of
        (evs, known, Some err) \<Rightarrow> (evs, known, Some err)
      | (evs, known, None) \<Rightarrow> (let (evs', known', r) = f known in (evs @ evs', known', r)))"

text \<open>Lines 209 to 223.\<close>

fun check_databases :: "env \<Rightarrow> string \<Rightarrow> knownContainers \<Rightarrow> Database list \<Rightarrow> phase" where
  "check_databases E net known [] = ([], known, None)"
| "check_databases E net known (db # dbs) =
     (case database_StartOrCreate E net db of
        Inl err \<Rightarrow>
          ([OutPending [''checking'', GetHostname E db], CallDatabaseStartOrCreate net db,
            OutWarning], known, Some err)
      | Inr cid \<Rightarrow>
          (let (evs, known', r) = check_databases E net (known(cid \<mapsto> True)) dbs
           in ([OutPending [''checking'', GetHostname E db], CallDatabaseStartOrCreate net db,
                OutDone] @ evs, known', r)))"

text \<open>Lines 231 to 244.\<close>

fun check_mounts :: "env \<Rightarrow> string \<Rightarrow> string \<Rightarrow> knownContainers \<Rightarrow> Mount list \<Rightarrow> phase" where
  "check_mounts E home net known [] = ([], known, None)"
| "check_mounts E home net known (m # ms) =
     (case mount_FindOrCreate E home net m of
        Inl err \<Rightarrow>
          ([OutPending [''checking'', Path m], CallMountFindOrCreate home net m, OutWarning],
           known, Some err)
      | Inr cid \<Rightarrow>
          (let (evs, known', r) = check_mounts E home net (known(cid \<mapsto> True)) ms
           in ([OutPending [''checking'', Path m], CallMountFindOrCreate home net m, OutDone] @ evs,
               known', r)))"

text \<open>Lines 284 to 297.\<close>

fun check_sites :: "env \<Rightarrow> string \<Rightarrow> string \<Rightarrow> knownContainers \<Rightarrow> Site list \<Rightarrow> phase" where
  "check_sites E home net known [] = ([], known, None)"
| "check_sites E home net known (s # ss) =
     (case site_StartOrCreate E home net s of
        Inl err \<Rightarrow>
          ([OutPending [''checking'', Hostname s], CallSiteStartOrCreate home net s, OutWarning],
           known, Some err)
      | Inr cid \<Rightarrow>
          (let (evs, known', r) = check_sites E home net (known(cid \<mapsto> True)) ss
           in ([OutPending [''checking'', Hostname s], CallSiteStartOrCreate home net s, OutDone] @ evs,
               known', r)))"

text \<open>Lines 249 to 262 and 264 to 277: the two optional services.\<close>

definition check_dynamodb :: "env \<Rightarrow> Config \<Rightarrow> string \<Rightarrow> knownContainers \<Rightarrow> phase" where
  "check_dynamodb E cfg net known =
     (if DynamoDB (Services cfg) then
        (case dynamodb E (DynamoDB (Services cfg)) net of
           Inl err \<Rightarrow>
             ([OutPending [''checking dynamodb service''],
               CallDynamodb (DynamoDB (Services cfg)) net], known, Some err)
         | Inr cid \<Rightarrow>
             ([OutPending [''checking dynamodb service''],
               CallDynamodb (DynamoDB (Services cfg)) net, OutDone],
              (if cid \<noteq> [] then known(cid \<mapsto> True) else known), None))
      else ([], known, None))"

definition check_mailhog :: "env \<Rightarrow> Config \<Rightarrow> string \<Rightarrow> knownContainers \<Rightarrow> phase" where
  "check_mailhog E cfg net known =
     (if Mailhog (Services cfg) then
        (case mailhog E (Mailhog (Services cfg)) net of
           Inl err \<Rightarrow>
             ([OutPending [''checking mailhog service''],
               CallMailhog (Mailhog (Services cfg)) net], known, Some err)
         | Inr cid \<Rightarrow>
             ([OutPending [''checking mailhog service''],
               CallMailhog (Mailhog (Services cfg)) net, OutDone],
              (if cid \<noteq> [] then known(cid \<mapsto> True) else known), None))
      else ([], known, None))"

text \<open>Lines 204 to 298: everything between the two proxy checks.\<close>

definition provision :: "env \<Rightarrow> string \<Rightarrow> Config \<Rightarrow> string \<Rightarrow> knownContainers \<Rightarrow> phase" where
  "provision E home cfg net known =
     and_then ([OutSuccess [''proxy ready''], OutInfo [''Checking databases...'']], known, None)
       (\<lambda>k. and_then (check_databases E net k (Databases cfg))
       (\<lambda>k. and_then
               (if length (Mounts cfg) > 0
                then and_then ([OutInfo [''Checking mounts...''], FmtPrintln (length (Mounts cfg))],
                               k, None)
                       (\<lambda>k. check_mounts E home net k (Mounts cfg))
                else ([], k, None))
       (\<lambda>k. and_then ([OutInfo [''Checking services...'']], k, None)
       (\<lambda>k. and_then (check_dynamodb E cfg net k)
       (\<lambda>k. and_then (check_mailhog E cfg net k)
       (\<lambda>k. if length (Sites cfg) > 0
             then and_then ([OutInfo [''Checking sites...'']], k, None)
                    (\<lambda>k. check_sites E home net k (Sites cfg))
             else ([], k, None)))))))"

text \<open>Lines 317 to 322.\<close>

fun all_hostnames :: "Site list \<Rightarrow> string list" where
  "all_hostnames [] = []"
| "all_hostnames (s # ss) = Hostname s # Aliases s @ all_hostnames ss"

definition running_msg :: "event list" where
  "running_msg = [OutInfo [''Nitro is up and running '' @ smiley]]"

text \<open>
  Lines 311 to 371: the hosts file. On the \<open>windows\<close> branch the value returned when the
  subprocess fails is the variable \<open>err\<close> of line 340, which is nil there.
\<close>

definition edit_hosts :: "env \<Rightarrow> Config \<Rightarrow> event list \<times> error option" where
  "edit_hosts E cfg =
     (if Getenv E ''NITRO_EDIT_HOSTS'' = ''false'' \<or> flag_skip_hosts E = ''true'' then ([], None)
      else
        (let hostnames = all_hostnames (Sites cfg)
         in if length hostnames > 0 then
              (let defaultFile =
                     (if GOOS E = ''windows''
                      then ''C:'' @ backslash @ ''Windows'' @ backslash @ ''System32'' @ backslash @
                           ''Drivers'' @ backslash @ ''etc'' @ backslash @ ''hosts''
                      else ''/etc/hosts'');
                   isUpdated = CallIsUpdated defaultFile ''127.0.0.1'' hostnames
               in case hostedit_IsUpdated E defaultFile ''127.0.0.1'' hostnames of
                    Inl err \<Rightarrow> ([isUpdated], Some err)
                  | Inr updated \<Rightarrow>
                      (if \<not> updated then
                         (case os_Executable E of
                            Inl err \<Rightarrow>
                              ([isUpdated, CallExecutable],
                               Some (Wrapf ''unable to locate the nitro path, '' err))
                          | Inr nitro \<Rightarrow>
                              (if GOOS E = ''windows'' then
                                 (let args = [nitro, ''hosts'', ''--hostnames='' @ Join hostnames '','']
                                  in case exec_Run E args of
                                       Some failure \<Rightarrow>
                                         ([isUpdated, CallExecutable, CallExecRun args], None)
                                     | None \<Rightarrow>
                                         ([isUpdated, CallExecutable, CallExecRun args] @ running_msg,
                                          None))
                               else
                                 (let args = [nitro, ''nitro'', ''hosts'',
                                              ''--hostnames='' @ Join hostnames '','']
                                  in case sudo_Run E args of
                                       Some err \<Rightarrow>
                                         ([isUpdated, CallExecutable,
                                           OutInfo [''Modifying hosts file (you might be prompted for your password)''],
                                           CallSudoRun args], Some err)
                                     | None \<Rightarrow>
                                         ([isUpdated, CallExecutable,
                                           OutInfo [''Modifying hosts file (you might be prompted for your password)''],
                                           CallSudoRun args] @ running_msg, None))))
                       else ([isUpdated] @ running_msg, None)))
            else (running_msg, None)))"

text \<open>Lines 300 to 371: the proxy synchronisation, then the hosts file.\<close>

definition proxy_and_hosts :: "env \<Rightarrow> Config \<Rightarrow> (event list \<times> error option) option" where
  "proxy_and_hosts E cfg =
     (case updateProxy E cfg of
        None \<Rightarrow> None
      | Some (evs, Some err) \<Rightarrow>
          Some ([OutInfo [''Checking proxy...''], OutPending [''updating proxy'']] @ evs @
                [OutWarning], Some err)
      | Some (evs, None) \<Rightarrow>
          (let (evs', r) = edit_hosts E cfg
           in Some ([OutInfo [''Checking proxy...''], OutPending [''updating proxy'']] @ evs @
                    [OutDone] @ evs', r)))"

definition network_filter :: "env \<Rightarrow> filter_args" where
  "network_filter E = nitro_filter E @ [(''name'', ''nitro-network'')]"

text \<open>
  Lines 142 to 372. The context is not modelled. \<open>None\<close>: the hook does not return; else
  its events, the map of known containers it leaves, and the error it returns (or nil).
\<close>

definition RunE :: "env \<Rightarrow> string \<Rightarrow> knownContainers \<Rightarrow> phase option" where
  "RunE E home known =
     (case config_Load E home of
        Inl err \<Rightarrow> Some ([CallConfigLoad home], known, Some err)
      | Inr cfg \<Rightarrow>
          (let t1 = [CallConfigLoad home, OutInfo [''Checking network...''],
                     CallNetworkList (network_filter E)]
           in case NetworkList E (network_filter E) of
                Inl err \<Rightarrow>
                  Some (t1, known, Some (Wrapf (''unable to list docker networks'' @ newline) err))
              | Inr networks \<Rightarrow>
                  (let network = find_network networks
                   in if network_ID network = [] then
                        Some (t1 @ [OutInfo [''No network was found...'' @ newline @
                                             ''run `nitro init` to get started'']], known, None)
                      else
                        (let t2 = t1 @ [OutSuccess [''network ready''],
                                        OutInfo [''Checking proxy...''], CallFindAndStart]
                         in case FindAndStart E of
                              Some err \<Rightarrow>
                                (if errors_Is err ErrNoProxyContainer then
                                   Some (t2 @ [OutInfo [''unable to find the nitro proxy...'' @ newline @
                                                        '' run `nitro init` to resolve'']], known, None)
                                 else Some (t2, known, Some err))
                            | None \<Rightarrow>
                                (case provision E home cfg (network_ID network) known of
                                   (evs, known', Some err) \<Rightarrow> Some (t2 @ evs, known', Some err)
                                 | (evs, known', None) \<Rightarrow>
                                     (case proxy_and_hosts E cfg of
                                        None \<Rightarrow> None
                                      | Some (evs', r) \<Rightarrow> Some (t2 @ evs @ evs', known', r)))))))"

section \<open>The command, and a process that runs it\<close>

text \<open>
  One run of \<open>nitro apply\<close>, the reconciliation of the specification. The command
  framework (cobra) runs the hooks of a command in order: \<open>RunE\<close> and, only when it
  returned nil, \<open>PostRunE\<close>; the first error ends the command and is what it returns.
  Both hooks use the package-level map \<open>knownContainers\<close>: \<open>RunE\<close> writes it,
  \<open>PostRunE\<close> reads it.
\<close>

definition execute :: "env \<Rightarrow> string \<Rightarrow> knownContainers \<Rightarrow> (event list \<times> knownContainers \<times> outcome) option" where
  "execute E home known =
     (case RunE E home known of
        None \<Rightarrow> None
      | Some (evs, known', Some err) \<Rightarrow> Some (evs, known', Returned (Some err))
      | Some (evs, known', None) \<Rightarrow>
          (let (evs', r) = PostRunE E home known' in Some (evs @ evs', known', r)))"

text \<open>
  Line 37: the map is made once, empty, when the package is initialised. A process that
  runs the command several times runs each on the map the one before left; the result
  lists, for each run, the map it started on, its events and its outcome.
\<close>

fun runs :: "env list \<Rightarrow> string \<Rightarrow> knownContainers \<Rightarrow> (knownContainers \<times> event list \<times> outcome) list option" where
  "runs [] home known = Some []"
| "runs (E # Es) home known =
     (case execute E home known of
        None \<Rightarrow> None
      | Some (evs, known', r) \<Rightarrow>
          (case runs Es home known' of
             None \<Rightarrow> None
           | Some rest \<Rightarrow> Some ((known, evs, r) # rest)))"

definition process :: "env list \<Rightarrow> string \<Rightarrow> (knownContainers \<times> event list \<times> outcome) list option" where
  "process Es home = runs Es home Map.empty"

section \<open>Vocabulary of the properties, and concrete environments\<close>

text \<open>A trace touches a container when it holds a call that stops or removes it.\<close>

definition touches :: "string \<Rightarrow> event list \<Rightarrow> bool" where
  "touches i evs = (CallContainerStop i \<in> set evs \<or> CallContainerRemove i \<in> set evs)"

text \<open>
  The failure of a backup that the sweep does not go on from: the databases of a database
  container cannot be listed (lines 85 to 90). A backup of one database that fails is
  printed as a warning and the sweep goes on to the teardown (lines 114 to 119).
\<close>

definition listing_failure :: "env \<Rightarrow> container \<Rightarrow> bool" where
  "listing_failure E c =
     (label c (labels_DatabaseEngine E) \<noteq> [] \<and>
      isl (backup_Databases E (ID c) (label c (labels_DatabaseCompatability E))))"

text \<open>
  Concrete environments, for evaluating the model. In \<open>quiet\<close> every collaborator
  succeeds, the network exists, nothing is declared and no container is listed; the others
  change a few answers.
\<close>

definition quiet :: env where
  "quiet =
     \<lparr> labels_Nitro = ''com.craftcms.nitro'',
       labels_Proxy = ''com.craftcms.nitro.proxy'',
       labels_DatabaseEngine = ''com.craftcms.nitro.database-engine'',
       labels_DatabaseCompatability = ''com.craftcms.nitro.database-compatability'',
       ContainerList = (\<lambda>f. Inr []),
       NetworkList = (\<lambda>f. Inr [\<lparr> network_Name = ''nitro-network'', network_ID = ''net1'' \<rparr>]),
       ContainerStop = (\<lambda>i. None),
       ContainerRemove = (\<lambda>i. None),
       backup_Databases = (\<lambda>i mode. Inr []),
       backup_Perform = (\<lambda>opts. None),
       timestamp = (\<lambda>i db. ''t0''),
       filepath_Join = (\<lambda>xs. Join xs ''/''),
       config_Load = (\<lambda>h. Inr \<lparr> Databases = [], Mounts = [], Sites = [],
                                  Services = \<lparr> DynamoDB = False, Mailhog = False \<rparr> \<rparr>),
       FindAndStart = None,
       GetHostname = (\<lambda>db. case db of DatabaseSpec tag \<Rightarrow> tag @ ''.database.nitro''),
       database_StartOrCreate = (\<lambda>net db. case db of DatabaseSpec tag \<Rightarrow> Inr (''id-'' @ tag)),
       mount_FindOrCreate = (\<lambda>h net m. Inr (''id-'' @ Path m)),
       dynamodb = (\<lambda>b net. Inr ''id-dynamodb''),
       mailhog = (\<lambda>b net. Inr ''id-mailhog''),
       site_StartOrCreate = (\<lambda>h net s. Inr (''id-'' @ Hostname s)),
       Ping = (\<lambda>n. None),
       Apply = (\<lambda>sites. Inr \<lparr> resp_Error = False, resp_Message = [] \<rparr>),
       Getenv = (\<lambda>k. []),
       flag_skip_hosts = ''false'',
       GOOS = ''linux'',
       hostedit_IsUpdated = (\<lambda>file addr hs. Inr False),
       os_Executable = Inr ''nitro'',
       exec_Run = (\<lambda>args. None),
       sudo_Run = (\<lambda>args. None) \<rparr>"

definition plain :: "string \<Rightarrow> container" where
  "plain i = \<lparr> ID = i, Names = [''/'' @ i], Labels = [''com.craftcms.nitro'' \<mapsto> ''true''] \<rparr>"

definition proxy_container :: container where
  "proxy_container =
     \<lparr> ID = ''p'', Names = [''/nitro-proxy''],
       Labels = [''com.craftcms.nitro'' \<mapsto> ''true'', ''com.craftcms.nitro.proxy'' \<mapsto> ''true''] \<rparr>"

definition db_container :: container where
  "db_container =
     \<lparr> ID = ''d'', Names = [''/mysql''],
       Labels = [''com.craftcms.nitro'' \<mapsto> ''true'',
                 ''com.craftcms.nitro.database-engine'' \<mapsto> ''mysql'',
                 ''com.craftcms.nitro.database-compatability'' \<mapsto> ''mysql''] \<rparr>"

definition sweep_env :: env where
  "sweep_env =
     quiet \<lparr> ContainerList := (\<lambda>f. Inr [plain ''a'', proxy_container, db_container, plain ''b'']),
             backup_Databases := (\<lambda>i mode. Inr [''one'']) \<rparr>"

definition stop_fails :: env where
  "stop_fails = quiet \<lparr> ContainerList := (\<lambda>f. Inr [plain ''x'', plain ''y'']),
                         ContainerStop := (\<lambda>i. if i = ''x'' then Some (External ''cannot stop'') else None) \<rparr>"

text \<open>
  The stage a call belongs to: 0 for the prerequisites and the provisioning, 1 for the
  proxy synchronisation, 2 for the hosts file, 3 for the sweep. Printed lines have none.
\<close>

fun stage :: "event \<Rightarrow> nat option" where
  "stage (CallConfigLoad h) = Some 0"
| "stage (CallNetworkList f) = Some 0"
| "stage CallFindAndStart = Some 0"
| "stage (CallDatabaseStartOrCreate net db) = Some 0"
| "stage (CallMountFindOrCreate h net m) = Some 0"
| "stage (CallDynamodb b net) = Some 0"
| "stage (CallMailhog b net) = Some 0"
| "stage (CallSiteStartOrCreate h net s) = Some 0"
| "stage (CallPing n) = Some 1"
| "stage (CallApply sites) = Some 1"
| "stage (CallIsUpdated file addr hs) = Some 2"
| "stage CallExecutable = Some 2"
| "stage (CallExecRun args) = Some 2"
| "stage (CallSudoRun args) = Some 2"
| "stage (CallContainerList f) = Some 3"
| "stage (CallBackupDatabases i mode) = Some 3"
| "stage (CallBackupPerform opts) = Some 3"
| "stage (CallContainerStop i) = Some 3"
| "stage (CallContainerRemove i) = Some 3"
| "stage ev = None"

text \<open>
  The error with which the step of a call fails in an environment, if it does. For the
  apply call a response with the error flag set is a failure too, with the message the
  source makes of it.
\<close>

fun step_error :: "env \<Rightarrow> event \<Rightarrow> error option" where
  "step_error E (CallConfigLoad h) = (case config_Load E h of Inl e \<Rightarrow> Some e | Inr cfg \<Rightarrow> None)"
| "step_error E (CallNetworkList f) = (case NetworkList E f of Inl e \<Rightarrow> Some e | Inr ns \<Rightarrow> None)"
| "step_error E CallFindAndStart = FindAndStart E"
| "step_error E (CallDatabaseStartOrCreate net db) =
     (case database_StartOrCreate E net db of Inl e \<Rightarrow> Some e | Inr i \<Rightarrow> None)"
| "step_error E (CallMountFindOrCreate h net m) =
     (case mount_FindOrCreate E h net m of Inl e \<Rightarrow> Some e | Inr i \<Rightarrow> None)"
| "step_error E (CallDynamodb b net) = (case dynamodb E b net of Inl e \<Rightarrow> Some e | Inr i \<Rightarrow> None)"
| "step_error E (CallMailhog b net) = (case mailhog E b net of Inl e \<Rightarrow> Some e | Inr i \<Rightarrow> None)"
| "step_error E (CallSiteStartOrCreate h net s) =
     (case site_StartOrCreate E h net s of Inl e \<Rightarrow> Some e | Inr i \<Rightarrow> None)"
| "step_error E (CallPing n) = Ping E n"
| "step_error E (CallApply sites) =
     (case Apply E sites of
        Inl e \<Rightarrow> Some e
      | Inr resp \<Rightarrow>
          (if resp_Error resp then Some (Errorf (''unable to update the proxy, '' @ resp_Message resp))
           else None))"
| "step_error E (CallIsUpdated file addr hs) =
     (case hostedit_IsUpdated E file addr hs of Inl e \<Rightarrow> Some e | Inr u \<Rightarrow> None)"
| "step_error E CallExecutable = (case os_Executable E of Inl e \<Rightarrow> Some e | Inr p \<Rightarrow> None)"
| "step_error E (CallExecRun args) = exec_Run E args"
| "step_error E (CallSudoRun args) = sudo_Run E args"
| "step_error E (CallContainerList f) = (case ContainerList E f of Inl e \<Rightarrow> Some e | Inr cs \<Rightarrow> None)"
| "step_error E (CallBackupDatabases i mode) =
     (case backup_Databases E i mode of Inl e \<Rightarrow> Some e | Inr dbs \<Rightarrow> None)"
| "step_error E (CallBackupPerform opts) = backup_Perform E opts"
| "step_error E (CallContainerStop i) = ContainerStop E i"
| "step_error E (CallContainerRemove i) = ContainerRemove E i"
| "step_error E ev = None"

text \<open>
  The steps whose failure is returned: every call but the probe, which is tried again,
  the two calls of the backup package, whose failures are printed, and the subprocess of
  the windows branch, about which nothing is said here.
\<close>

fun fatal_step :: "event \<Rightarrow> bool" where
  "fatal_step (CallPing n) = False"
| "fatal_step (CallExecRun args) = False"
| "fatal_step (CallBackupDatabases i mode) = False"
| "fatal_step (CallBackupPerform opts) = False"
| "fatal_step ev = (stage ev \<noteq> None)"

text \<open>What the command returns for an error of a step: wrapped, replaced, or as it is.\<close>

fun surfaced :: "event \<Rightarrow> error \<Rightarrow> error" where
  "surfaced (CallNetworkList f) e = Wrapf (''unable to list docker networks'' @ newline) e"
| "surfaced CallExecutable e = Wrapf ''unable to locate the nitro path, '' e"
| "surfaced (CallContainerList f) e = Errorf ''error getting a list of containers''"
| "surfaced ev e = e"

text \<open>Every failure of a fatal step in the trace is the outcome, but the missing proxy.\<close>

definition surfaces :: "env \<Rightarrow> event list \<Rightarrow> outcome \<Rightarrow> bool" where
  "surfaces E evs r =
     (\<forall>ev \<in> set evs. \<forall>e.
        fatal_step ev \<longrightarrow> step_error E ev = Some e \<longrightarrow>
        \<not> (ev = CallFindAndStart \<and> errors_Is e ErrNoProxyContainer) \<longrightarrow>
        r = Returned (Some (surfaced ev e)))"

text \<open>All the calls of a trace belong to one stage.\<close>

definition in_stage :: "nat \<Rightarrow> event list \<Rightarrow> bool" where
  "in_stage n evs = (\<forall>ev \<in> set evs. stage ev = None \<or> stage ev = Some n)"

text \<open>A phase of \<open>RunE\<close> before the proxy: stage 0, the map only grows, failures surface.\<close>

definition phase_ok :: "env \<Rightarrow> knownContainers \<Rightarrow> phase \<Rightarrow> bool" where
  "phase_ok E known p =
     (case p of (evs, known', r) \<Rightarrow>
        in_stage 0 evs \<and> dom known \<subseteq> dom known' \<and> surfaces E evs (Returned r))"

text \<open>A trace of \<open>RunE\<close>: stage 0, then stage 1, then stage 2.\<close>

definition staged :: "event list \<Rightarrow> bool" where
  "staged evs = (\<exists>a b c. evs = a @ b @ c \<and> in_stage 0 a \<and> in_stage 1 b \<and> in_stage 2 c)"

text \<open>The order the specification gives: the sweep before the hosts file.\<close>

fun claimed_stage :: "event \<Rightarrow> nat option" where
  "claimed_stage ev =
     (case stage ev of
        Some n \<Rightarrow> (if n = 2 then Some 3 else if n = 3 then Some 2 else Some n)
      | None \<Rightarrow> None)"

definition one_site :: Config where
  "one_site = \<lparr> Databases = [], Mounts = [],
                Sites = [\<lparr> Hostname = ''a.test'', Aliases = [''b.test''] \<rparr>],
                Services = \<lparr> DynamoDB = False, Mailhog = False \<rparr> \<rparr>"

definition slow_ping :: "nat \<Rightarrow> error option" where
  "slow_ping n = (if n < 2 then Some (External ''not ready'') else None)"

definition full_env :: env where
  "full_env = quiet \<lparr> config_Load := (\<lambda>h. Inr one_site),
                       ContainerList := (\<lambda>f. Inr [plain ''id-a.test'', plain ''b'']),
                       Ping := slow_ping \<rparr>"

definition backup_fails :: env where
  "backup_fails =
     quiet \<lparr> ContainerList := (\<lambda>f. Inr [db_container, plain ''b'']),
             backup_Databases := (\<lambda>i mode. Inr [''one'', ''two'']),
             backup_Perform := (\<lambda>opts. if Database opts = ''one'' then Some (External ''dump failed'')
                                         else None) \<rparr>"

definition listing_fails :: env where
  "listing_fails =
     quiet \<lparr> ContainerList := (\<lambda>f. Inr [db_container, plain ''b'']),
             backup_Databases := (\<lambda>i mode. Inl (External ''exec failed'')) \<rparr>"

definition no_network :: env where
  "no_network = quiet \<lparr> NetworkList := (\<lambda>f. Inr []),
                          ContainerList := (\<lambda>f. Inr [plain ''b'']) \<rparr>"

definition no_proxy :: env where
  "no_proxy = quiet \<lparr> FindAndStart := Some ErrNoProxyContainer,
                        ContainerList := (\<lambda>f. Inr [plain ''b'']) \<rparr>"

definition cancelled_ping :: "nat \<Rightarrow> error option" where
  "cancelled_ping n = Some (External ''context canceled'')"

definition cancelled :: env where
  "cancelled = quiet \<lparr> config_Load := (\<lambda>h. Inr one_site), Ping := cancelled_ping \<rparr>"

definition no_sites :: Config where
  "no_sites = \<lparr> Databases = [], Mounts = [], Sites = [],
                Services = \<lparr> DynamoDB = False, Mailhog = False \<rparr> \<rparr>"

definition one_database :: Config where
  "one_database = \<lparr> Databases = [DatabaseSpec ''mysql''],
                    Mounts = [], Sites = [],
                    Services = \<lparr> DynamoDB = False, Mailhog = False \<rparr> \<rparr>"

definition declares_db :: env where
  "declares_db = quiet \<lparr> config_Load := (\<lambda>h. Inr one_database),
                          ContainerList := (\<lambda>f. Inr [plain ''id-mysql'']) \<rparr>"

definition declares_nothing :: env where
  "declares_nothing = quiet \<lparr> config_Load := (\<lambda>h. Inr no_sites),
                               ContainerList := (\<lambda>f. Inr [plain ''id-mysql'']) \<rparr>"



definition windows_fails :: env where
  "windows_fails = quiet \<lparr> config_Load := (\<lambda>h. Inr one_site), GOOS := ''windows'',
                            exec_Run := (\<lambda>args. Some (External ''exit status 1'')) \<rparr>"

section \<open>Properties\<close>

subsection \<open>Which containers the sweep stops and removes\<close>

lemma touches_append [simp]: "touches i (xs @ ys) = (touches i xs \<or> touches i ys)"
  by (auto simp: touches_def)

lemma touches_Nil [simp]: "\<not> touches i []"
  by (simp add: touches_def)

lemma backup_each_untouched: "\<not> touches i (backup_each E home c name dbs)"
  by (induction dbs) (auto simp: touches_def Let_def split: option.splits)

lemma stop_and_remove_touches:
  "touches i (fst (stop_and_remove E c)) \<Longrightarrow> i = ID c"
  by (auto simp: stop_and_remove_def touches_def split: option.splits)

lemma sweep_body_touches:
  assumes "touches i (fst (sweep_body E home known c))"
  shows "i = ID c \<and> known (ID c) = None \<and> label c (labels_Proxy E) = [] \<and> \<not> listing_failure E c"
  using assms backup_each_untouched[of i E home c] stop_and_remove_touches[of i E c]
  by (auto simp: sweep_body_def Let_def touches_def listing_failure_def
           split: if_splits list.splits sum.splits prod.splits)

lemma sweep_loop_touches:
  "touches i (fst (sweep_loop E home known cs)) \<Longrightarrow>
     \<exists>c \<in> set cs. ID c = i \<and> known i = None \<and> label c (labels_Proxy E) = [] \<and>
                  \<not> listing_failure E c"
proof (induction cs)
  case Nil
  then show ?case by simp
next
  case (Cons c cs)
  obtain evs ctl where b: "sweep_body E home known c = (evs, ctl)" by (cases "sweep_body E home known c")
  show ?case
  proof (cases "touches i evs")
    case True
    with b sweep_body_touches[of i E home known c] show ?thesis by auto
  next
    case False
    with Cons b show ?thesis
      by (cases ctl) (auto split: prod.splits)
  qed
qed

lemma sweep_body_Next:
  assumes "sweep_body E home known c = (evs, Next)"
    and "known (ID c) = None" and "label c (labels_Proxy E) = []"
  shows "\<exists>pre. \<not> touches (ID c) pre \<and> evs = pre @ [CallContainerStop (ID c), CallContainerRemove (ID c)]"
proof (cases "Names c")
  case Nil
  with assms show ?thesis by (simp add: sweep_body_def)
next
  case (Cons n0 ns)
  have sr: "stop_and_remove E c = ([CallContainerStop (ID c), CallContainerRemove (ID c)], Next)"
    using assms Cons
    by (auto simp: sweep_body_def stop_and_remove_def Let_def split: if_splits sum.splits option.splits)
  show ?thesis
  proof (cases "label c (labels_DatabaseEngine E) = []")
    case True
    with assms Cons sr
    have "evs = [OutInfo [''removing'', TrimLeft n0 ''/'']] @ [CallContainerStop (ID c), CallContainerRemove (ID c)]"
      by (simp add: sweep_body_def Let_def)
    moreover have "\<not> touches (ID c) [OutInfo [''removing'', TrimLeft n0 ''/'']]"
      by (simp add: touches_def)
    ultimately show ?thesis by blast
  next
    case False
    with assms Cons obtain dbs where
      dbs: "backup_Databases E (ID c) (label c (labels_DatabaseCompatability E)) = Inr dbs"
      by (auto simp: sweep_body_def Let_def split: sum.splits)
    let ?pre = "[OutInfo [''removing'', TrimLeft n0 ''/''],
                 CallBackupDatabases (ID c) (label c (labels_DatabaseCompatability E))] @
                backup_each E home c (TrimLeft n0 ''/'') dbs @
                [OutInfo [''Backups saved in'', filepath_Join E [home, ''.nitro'', TrimLeft n0 ''/''], floppy_disk]]"
    from assms Cons sr False dbs
    have "evs = ?pre @ [CallContainerStop (ID c), CallContainerRemove (ID c)]"
      by (simp add: sweep_body_def Let_def)
    moreover have "\<not> touches (ID c) ?pre"
      using backup_each_untouched[of "ID c" E home c] by (simp add: touches_def)
    ultimately show ?thesis by blast
  qed
qed

lemma sweep_body_Break:
  assumes "sweep_body E home known c = (evs, Break)"
  shows "known (ID c) = None \<and> label c (labels_Proxy E) = [] \<and> listing_failure E c"
  using assms
  by (auto simp: sweep_body_def stop_and_remove_def Let_def listing_failure_def
           split: if_splits list.splits sum.splits option.splits)

lemma sweep_loop_complete:
  assumes "snd (sweep_loop E home known cs) = Returned None"
    and "\<forall>d \<in> set cs. known (ID d) = None \<and> label d (labels_Proxy E) = [] \<longrightarrow> \<not> listing_failure E d"
    and "c \<in> set cs" and "known (ID c) = None" and "label c (labels_Proxy E) = []"
  shows "\<exists>pre post. fst (sweep_loop E home known cs) =
           pre @ [CallContainerStop (ID c), CallContainerRemove (ID c)] @ post"
  using assms
proof (induction cs)
  case Nil
  then show ?case by simp
next
  case (Cons d ds)
  obtain evs ctl where b: "sweep_body E home known d = (evs, ctl)"
    by (cases "sweep_body E home known d")
  obtain evs' r where l: "sweep_loop E home known ds = (evs', r)"
    by (cases "sweep_loop E home known ds")
  from Cons.prems(2) sweep_body_Break[of E home known d evs] b have nb: "ctl \<noteq> Break"
    by auto
  with Cons.prems(1) b l have ctl: "ctl = Next" and r: "r = Returned None"
    by (cases ctl; simp)+
  have whole: "fst (sweep_loop E home known (d # ds)) = evs @ evs'"
    using b l ctl by simp
  show ?case
  proof (cases "c = d")
    case True
    with b ctl Cons.prems sweep_body_Next[of E home known d evs]
    obtain pre where "evs = pre @ [CallContainerStop (ID c), CallContainerRemove (ID c)]"
      by auto
    with whole have "fst (sweep_loop E home known (d # ds)) =
        pre @ [CallContainerStop (ID c), CallContainerRemove (ID c)] @ evs'"
      by simp
    then show ?thesis by blast
  next
    case False
    with Cons.prems have "c \<in> set ds" by simp
    with Cons.IH Cons.prems l r
    obtain pre post where "evs' = pre @ [CallContainerStop (ID c), CallContainerRemove (ID c)] @ post"
      by auto
    with whole have "fst (sweep_loop E home known (d # ds)) =
        (evs @ pre) @ [CallContainerStop (ID c), CallContainerRemove (ID c)] @ post"
      by simp
    then show ?thesis by blast
  qed
qed

text \<open>The call that fails when a teardown fails: the stop, or else the remove.\<close>

lemma stop_and_remove_failure:
  assumes "ContainerStop E (ID c) = Some err \<or>
           ContainerStop E (ID c) = None \<and> ContainerRemove E (ID c) = Some err"
  shows "stop_and_remove E c =
     ((if ContainerStop E (ID c) = None
       then [CallContainerStop (ID c), CallContainerRemove (ID c)]
       else [CallContainerStop (ID c)]), Return err)"
  using assms by (auto simp: stop_and_remove_def)

lemma sweep_body_failure:
  assumes "CallContainerStop (ID c) \<in> set (fst (sweep_body E home known c))"
    and "ContainerStop E (ID c) = Some err \<or>
         ContainerStop E (ID c) = None \<and> ContainerRemove E (ID c) = Some err"
  shows "snd (sweep_body E home known c) = Return err \<and>
         fst (sweep_body E home known c) \<noteq> [] \<and>
         last (fst (sweep_body E home known c)) =
           (if ContainerStop E (ID c) = None then CallContainerRemove (ID c)
            else CallContainerStop (ID c))"
  using assms(1) stop_and_remove_failure[OF assms(2)]
  by (auto simp: sweep_body_def Let_def split: if_splits list.splits sum.splits)

lemma sweep_loop_failure:
  assumes "distinct (map ID (before @ c # after))"
    and "CallContainerStop (ID c) \<in> set (fst (sweep_loop E home known (before @ c # after)))"
    and "ContainerStop E (ID c) = Some err \<or>
         ContainerStop E (ID c) = None \<and> ContainerRemove E (ID c) = Some err"
  shows "snd (sweep_loop E home known (before @ c # after)) = Returned (Some err) \<and>
         fst (sweep_loop E home known (before @ c # after)) \<noteq> [] \<and>
         last (fst (sweep_loop E home known (before @ c # after))) =
           (if ContainerStop E (ID c) = None then CallContainerRemove (ID c)
            else CallContainerStop (ID c)) \<and>
         (\<forall>d \<in> set after. \<not> touches (ID d) (fst (sweep_loop E home known (before @ c # after))))"
  using assms(1,2)
proof (induction before)
  case Nil
  obtain evs ctl where b: "sweep_body E home known c = (evs, ctl)"
    by (cases "sweep_body E home known c")
  have reached: "CallContainerStop (ID c) \<in> set evs"
  proof (rule ccontr)
    assume no: "CallContainerStop (ID c) \<notin> set evs"
    with Nil.prems(2) b have "touches (ID c) (fst (sweep_loop E home known after))"
      by (cases ctl) (auto simp: touches_def split: prod.splits)
    from sweep_loop_touches[OF this] obtain d where d: "d \<in> set after" "ID d = ID c" by blast
    from imageI[OF d(1), of ID] d(2) have "ID c \<in> ID ` set after" by simp
    with Nil.prems(1) show False by simp
  qed
  with b sweep_body_failure[of c E home known err] assms(3)
  have f: "ctl = Return err" "evs \<noteq> []"
    "last evs = (if ContainerStop E (ID c) = None then CallContainerRemove (ID c)
                 else CallContainerStop (ID c))"
    by simp_all
  have "\<not> touches (ID d) evs" if "d \<in> set after" for d
  proof
    assume "touches (ID d) evs"
    with b sweep_body_touches[of "ID d" E home known c] have "ID d = ID c" by simp
    with imageI[OF that, of ID] have "ID c \<in> ID ` set after" by simp
    with Nil.prems(1) show False by simp
  qed
  with b f show ?case by simp
next
  case (Cons d before)
  obtain evs ctl where b: "sweep_body E home known d = (evs, ctl)"
    by (cases "sweep_body E home known d")
  obtain evs' r where l: "sweep_loop E home known (before @ c # after) = (evs', r)"
    by (cases "sweep_loop E home known (before @ c # after)")
  from Cons.prems(1) have ne: "ID d \<noteq> ID c" and dist: "distinct (map ID (before @ c # after))"
    and notin: "ID d \<notin> ID ` set after"
    by auto
  have fresh: "\<forall>x \<in> set after. ID x \<noteq> ID d"
  proof
    fix x assume "x \<in> set after"
    from imageI[OF this, of ID] notin show "ID x \<noteq> ID d" by metis
  qed
  have quiet: "\<not> touches (ID x) evs" if "ID x \<noteq> ID d" for x :: container
    using sweep_body_touches[of "ID x" E home known d] b that by auto
  from quiet[of c] ne have "CallContainerStop (ID c) \<notin> set evs" by (auto simp: touches_def)
  with Cons.prems(2) b l have ctl: "ctl = Next" and in_rest: "CallContainerStop (ID c) \<in> set evs'"
    by (cases ctl; simp)+
  from Cons.IH[OF dist] in_rest l
  have rest: "r = Returned (Some err)" "evs' \<noteq> []"
    "last evs' = (if ContainerStop E (ID c) = None then CallContainerRemove (ID c)
                  else CallContainerStop (ID c))"
    "\<forall>x \<in> set after. \<not> touches (ID x) evs'"
    by simp_all
  from b l ctl have whole: "sweep_loop E home known ((d # before) @ c # after) = (evs @ evs', r)"
    by simp
  from rest quiet fresh show ?case unfolding whole by simp
qed

text \<open>
  C1, as amended. Over the containers the engine lists, with distinct identifiers: a
  container whose identifier is in the known map is never stopped or removed; a container
  whose proxy label is not empty is never stopped or removed; when the sweep returns nil
  and no listing of the databases of a container it tears down failed, every other
  container is stopped and, right after, removed; and when the stop or the remove of a
  container fails, that call is the last of the sweep, its error is what the sweep returns,
  and no container after it in the list is stopped or removed. As the claim states it,
  for every run, the third part fails in a run with such a failure.
\<close>

theorem orphan_sweep_classification:
  assumes listed: "ContainerList E (nitro_filter E) = Inr cs"
    and ids: "distinct (map ID cs)"
    and run: "PostRunE E home known = (evs, r)"
  shows "(\<forall>c \<in> set cs.
           (known (ID c) \<noteq> None \<longrightarrow>
              CallContainerStop (ID c) \<notin> set evs \<and> CallContainerRemove (ID c) \<notin> set evs) \<and>
           (label c (labels_Proxy E) \<noteq> [] \<longrightarrow>
              CallContainerStop (ID c) \<notin> set evs \<and> CallContainerRemove (ID c) \<notin> set evs) \<and>
           (known (ID c) = None \<and> label c (labels_Proxy E) = [] \<and> r = Returned None \<and>
            (\<forall>d \<in> set cs. known (ID d) = None \<and> label d (labels_Proxy E) = [] \<longrightarrow>
               \<not> listing_failure E d) \<longrightarrow>
              (\<exists>pre post. evs = pre @ [CallContainerStop (ID c), CallContainerRemove (ID c)] @ post))) \<and>
         (\<forall>before c after err.
            cs = before @ c # after \<and> CallContainerStop (ID c) \<in> set evs \<and>
            (ContainerStop E (ID c) = Some err \<or>
             ContainerStop E (ID c) = None \<and> ContainerRemove E (ID c) = Some err) \<longrightarrow>
              r = Returned (Some err) \<and>
              last evs = (if ContainerStop E (ID c) = None then CallContainerRemove (ID c)
                          else CallContainerStop (ID c)) \<and>
              (\<forall>d \<in> set after.
                 CallContainerStop (ID d) \<notin> set evs \<and> CallContainerRemove (ID d) \<notin> set evs))"
proof (rule conjI)
  show "\<forall>c \<in> set cs.
           (known (ID c) \<noteq> None \<longrightarrow>
              CallContainerStop (ID c) \<notin> set evs \<and> CallContainerRemove (ID c) \<notin> set evs) \<and>
           (label c (labels_Proxy E) \<noteq> [] \<longrightarrow>
              CallContainerStop (ID c) \<notin> set evs \<and> CallContainerRemove (ID c) \<notin> set evs) \<and>
           (known (ID c) = None \<and> label c (labels_Proxy E) = [] \<and> r = Returned None \<and>
            (\<forall>d \<in> set cs. known (ID d) = None \<and> label d (labels_Proxy E) = [] \<longrightarrow>
               \<not> listing_failure E d) \<longrightarrow>
              (\<exists>pre post. evs = pre @ [CallContainerStop (ID c), CallContainerRemove (ID c)] @ post))"
  proof (intro ballI conjI)
  fix c assume c: "c \<in> set cs"
  obtain evs' r' where l: "sweep_loop E home known cs = (evs', r')"
    by (cases "sweep_loop E home known cs")
  from c have ne: "cs \<noteq> []" by auto
  from listed run l ne have evs: "evs = CallContainerList (nitro_filter E) # evs'" and r: "r = r'"
    by (auto simp: PostRunE_def)
  have t: "touches i evs \<longleftrightarrow> touches i evs'" for i
    by (simp add: evs touches_def)
  have only: "touches (ID c) evs \<Longrightarrow> known (ID c) = None \<and> label c (labels_Proxy E) = []"
  proof -
    assume "touches (ID c) evs"
    with t l sweep_loop_touches[of "ID c" E home known cs]
    obtain d where d: "d \<in> set cs" "ID d = ID c" "known (ID c) = None" "label d (labels_Proxy E) = []"
      by auto
    from ids c d(1,2) have "d = c" by (meson distinct_map inj_onD)
    with d show ?thesis by simp
  qed
  show "known (ID c) \<noteq> None \<longrightarrow>
      CallContainerStop (ID c) \<notin> set evs \<and> CallContainerRemove (ID c) \<notin> set evs"
    using only by (auto simp: touches_def)
  show "label c (labels_Proxy E) \<noteq> [] \<longrightarrow>
      CallContainerStop (ID c) \<notin> set evs \<and> CallContainerRemove (ID c) \<notin> set evs"
    using only by (auto simp: touches_def)
  show "known (ID c) = None \<and> label c (labels_Proxy E) = [] \<and> r = Returned None \<and>
            (\<forall>d \<in> set cs. known (ID d) = None \<and> label d (labels_Proxy E) = [] \<longrightarrow>
               \<not> listing_failure E d) \<longrightarrow>
              (\<exists>pre post. evs = pre @ [CallContainerStop (ID c), CallContainerRemove (ID c)] @ post)"
  proof (intro impI, elim conjE)
    assume that: "known (ID c) = None" "label c (labels_Proxy E) = []" "r = Returned None"
       "\<forall>d \<in> set cs. known (ID d) = None \<and> label d (labels_Proxy E) = [] \<longrightarrow> \<not> listing_failure E d"
    from sweep_loop_complete[of E home known cs c] that l r c
    obtain pre post where "evs' = pre @ [CallContainerStop (ID c), CallContainerRemove (ID c)] @ post"
      by auto
    with evs have "evs = (CallContainerList (nitro_filter E) # pre) @
        [CallContainerStop (ID c), CallContainerRemove (ID c)] @ post" by simp
    then show "\<exists>pre post. evs = pre @ [CallContainerStop (ID c), CallContainerRemove (ID c)] @ post"
      by blast
  qed
  qed
next
  show "\<forall>before c after err.
            cs = before @ c # after \<and> CallContainerStop (ID c) \<in> set evs \<and>
            (ContainerStop E (ID c) = Some err \<or>
             ContainerStop E (ID c) = None \<and> ContainerRemove E (ID c) = Some err) \<longrightarrow>
              r = Returned (Some err) \<and>
              last evs = (if ContainerStop E (ID c) = None then CallContainerRemove (ID c)
                          else CallContainerStop (ID c)) \<and>
              (\<forall>d \<in> set after.
                 CallContainerStop (ID d) \<notin> set evs \<and> CallContainerRemove (ID d) \<notin> set evs)"
  proof (intro allI impI)
  fix before c after err
  assume a: "cs = before @ c # after \<and> CallContainerStop (ID c) \<in> set evs \<and>
            (ContainerStop E (ID c) = Some err \<or>
             ContainerStop E (ID c) = None \<and> ContainerRemove E (ID c) = Some err)"
  obtain evs' r' where l: "sweep_loop E home known cs = (evs', r')"
    by (cases "sweep_loop E home known cs")
  from a have ne: "cs \<noteq> []" by auto
  from listed run l ne have evs: "evs = CallContainerList (nitro_filter E) # evs'" and r: "r = r'"
    by (auto simp: PostRunE_def)
  from a evs have reached: "CallContainerStop (ID c) \<in> set evs'" by simp
  from sweep_loop_failure[of before c after E home known err] ids a reached l
  have f: "r' = Returned (Some err)" "evs' \<noteq> []"
    "last evs' = (if ContainerStop E (ID c) = None then CallContainerRemove (ID c)
                  else CallContainerStop (ID c))"
    "\<forall>d \<in> set after. \<not> touches (ID d) evs'"
    by simp_all
  show "r = Returned (Some err) \<and>
        last evs = (if ContainerStop E (ID c) = None then CallContainerRemove (ID c)
                    else CallContainerStop (ID c)) \<and>
        (\<forall>d \<in> set after.
           CallContainerStop (ID d) \<notin> set evs \<and> CallContainerRemove (ID d) \<notin> set evs)"
    using f r evs by (auto simp: touches_def)
  qed
qed

lemmas sweep_defs = PostRunE_def sweep_body_def stop_and_remove_def backup_opts_def label_def
  nitro_filter_def TrimLeft_def Let_def quiet_def plain_def proxy_container_def db_container_def

lemma sweep_env_run:
  "PostRunE sweep_env ''/home/u'' [''a'' \<mapsto> True] =
     ([CallContainerList [(''label'', ''com.craftcms.nitro=true'')],
       OutInfo [''removing'', ''mysql''],
       CallBackupDatabases ''d'' ''mysql'',
       OutPending [''creating backup'', ''one-t0.sql''],
       CallBackupPerform (backup_opts sweep_env ''/home/u'' db_container ''mysql'' ''one''),
       OutDone,
       OutInfo [''Backups saved in'', ''/home/u/.nitro/mysql'', floppy_disk],
       CallContainerStop ''d'', CallContainerRemove ''d'',
       OutInfo [''removing'', ''b''], CallContainerStop ''b'', CallContainerRemove ''b''],
      Returned None)"
  by (simp add: sweep_defs sweep_env_def)

lemma stop_fails_run:
  "PostRunE stop_fails ''/home/u'' [''a'' \<mapsto> True] =
     ([CallContainerList [(''label'', ''com.craftcms.nitro=true'')],
       OutInfo [''removing'', ''x''], CallContainerStop ''x''],
      Returned (Some (External ''cannot stop'')))"
  by (simp add: sweep_defs stop_fails_def)

theorem orphan_sweep_classification_witness:
  "ContainerList sweep_env (nitro_filter sweep_env) =
     Inr [plain ''a'', proxy_container, db_container, plain ''b''] \<and>
   distinct (map ID [plain ''a'', proxy_container, db_container, plain ''b'']) \<and>
   snd (PostRunE sweep_env ''/home/u'' [''a'' \<mapsto> True]) = Returned None \<and>
   \<not> listing_failure sweep_env db_container \<and> \<not> listing_failure sweep_env (plain ''b'') \<and>
   CallContainerStop ''a'' \<notin> set (fst (PostRunE sweep_env ''/home/u'' [''a'' \<mapsto> True])) \<and>
   CallContainerRemove ''a'' \<notin> set (fst (PostRunE sweep_env ''/home/u'' [''a'' \<mapsto> True])) \<and>
   CallContainerStop ''p'' \<notin> set (fst (PostRunE sweep_env ''/home/u'' [''a'' \<mapsto> True])) \<and>
   CallContainerRemove ''p'' \<notin> set (fst (PostRunE sweep_env ''/home/u'' [''a'' \<mapsto> True])) \<and>
   (\<exists>pre post. fst (PostRunE sweep_env ''/home/u'' [''a'' \<mapsto> True]) =
      pre @ [CallContainerStop ''d'', CallContainerRemove ''d''] @ post) \<and>
   (\<exists>pre post. fst (PostRunE sweep_env ''/home/u'' [''a'' \<mapsto> True]) =
      pre @ [CallContainerStop ''b'', CallContainerRemove ''b''] @ post) \<and>
   ContainerList stop_fails (nitro_filter stop_fails) = Inr ([] @ plain ''x'' # [plain ''y'']) \<and>
   ContainerStop stop_fails ''x'' = Some (External ''cannot stop'') \<and>
   CallContainerStop ''x'' \<in> set (fst (PostRunE stop_fails ''/home/u'' [''a'' \<mapsto> True])) \<and>
   snd (PostRunE stop_fails ''/home/u'' [''a'' \<mapsto> True]) = Returned (Some (External ''cannot stop'')) \<and>
   last (fst (PostRunE stop_fails ''/home/u'' [''a'' \<mapsto> True])) = CallContainerStop ''x'' \<and>
   CallContainerStop ''y'' \<notin> set (fst (PostRunE stop_fails ''/home/u'' [''a'' \<mapsto> True])) \<and>
   CallContainerRemove ''y'' \<notin> set (fst (PostRunE stop_fails ''/home/u'' [''a'' \<mapsto> True]))"
  using orphan_sweep_classification [of sweep_env
      "[plain ''a'', proxy_container, db_container, plain ''b'']"
      "''/home/u''" "[''a'' \<mapsto> True]"
      "fst (PostRunE sweep_env ''/home/u'' [''a'' \<mapsto> True])"
      "snd (PostRunE sweep_env ''/home/u'' [''a'' \<mapsto> True])"]
    orphan_sweep_classification [of stop_fails "[plain ''x'', plain ''y'']"
      "''/home/u''" "[''a'' \<mapsto> True]"
      "fst (PostRunE stop_fails ''/home/u'' [''a'' \<mapsto> True])"
      "snd (PostRunE stop_fails ''/home/u'' [''a'' \<mapsto> True])"]
  by (simp add: sweep_env_run stop_fails_run)
     (simp add: sweep_defs listing_failure_def sweep_env_def stop_fails_def)

text \<open>
  Two containers, neither known nor the proxy; stopping the first fails. The second is
  neither stopped nor removed.
\<close>

theorem orphan_sweep_stop_failure_counterexample:
  "ContainerList stop_fails (nitro_filter stop_fails) = Inr [plain ''x'', plain ''y''] \<and>
   [''a'' \<mapsto> True] (ID (plain ''y'')) = None \<and>
   label (plain ''y'') (labels_Proxy stop_fails) = [] \<and>
   CallContainerStop (ID (plain ''y'')) \<notin> set (fst (PostRunE stop_fails ''/home/u'' [''a'' \<mapsto> True])) \<and>
   CallContainerRemove (ID (plain ''y'')) \<notin> set (fst (PostRunE stop_fails ''/home/u'' [''a'' \<mapsto> True]))"
  by (simp add: sweep_defs stop_fails_def)

subsection \<open>Stages, the known map and failures, phase by phase\<close>

lemma in_stage_simps [simp]:
  "in_stage n []"
  "in_stage n (ev # evs) = ((stage ev = None \<or> stage ev = Some n) \<and> in_stage n evs)"
  "in_stage n (xs @ ys) = (in_stage n xs \<and> in_stage n ys)"
  by (auto simp: in_stage_def)

lemma surfaces_Nil [simp]: "surfaces E [] r"
  by (simp add: surfaces_def)

lemma surfaces_append:
  "surfaces E xs (Returned None) \<Longrightarrow> surfaces E ys r \<Longrightarrow> surfaces E (xs @ ys) r"
  by (auto simp: surfaces_def)

lemma surfaces_Cons_quiet:
  "\<not> fatal_step ev \<Longrightarrow> surfaces E (ev # evs) r = surfaces E evs r"
  by (simp add: surfaces_def)

lemma surfaces_quiet:
  "\<forall>ev \<in> set evs. \<not> fatal_step ev \<Longrightarrow> surfaces E evs r"
  by (simp add: surfaces_def)

lemma phase_ok_and_then:
  assumes "phase_ok E known p" and "\<And>k. phase_ok E k (f k)"
  shows "phase_ok E known (and_then p f)"
proof -
  obtain evs k r where p: "p = (evs, k, r)" by (cases p)
  show ?thesis
  proof (cases r)
    case None
    obtain evs' k' r' where f: "f k = (evs', k', r')" by (cases "f k")
    from assms(1) p None have 1: "in_stage 0 evs" "dom known \<subseteq> dom k" "surfaces E evs (Returned None)"
      by (simp_all add: phase_ok_def)
    from assms(2)[of k] f have 2: "in_stage 0 evs'" "dom k \<subseteq> dom k'" "surfaces E evs' (Returned r')"
      by (simp_all add: phase_ok_def)
    from 1 2 have "dom known \<subseteq> dom k'" by blast
    with 1 2 p None f show ?thesis
      by (simp add: and_then_def phase_ok_def surfaces_append)
  next
    case (Some err)
    with assms(1) p show ?thesis by (simp add: and_then_def)
  qed
qed

lemma phase_ok_prefix:
  assumes "phase_ok E k' (evs, k'', r)" and "dom k \<subseteq> dom k'"
    and "in_stage 0 pre" and "surfaces E pre (Returned None)"
  shows "phase_ok E k (pre @ evs, k'', r)"
  using assms by (auto simp: phase_ok_def surfaces_append)

lemma check_databases_ok: "phase_ok E known (check_databases E net known dbs)"
proof (induction dbs arbitrary: known)
  case Nil
  show ?case by (simp add: phase_ok_def)
next
  case (Cons db dbs)
  show ?case
  proof (cases "database_StartOrCreate E net db")
    case (Inl err)
    then show ?thesis by (simp add: phase_ok_def surfaces_def)
  next
    case (Inr cid)
    obtain evs k r where rest: "check_databases E net (known(cid \<mapsto> True)) dbs = (evs, k, r)"
      by (cases "check_databases E net (known(cid \<mapsto> True)) dbs")
    have "phase_ok E known
            ([OutPending [''checking'', GetHostname E db], CallDatabaseStartOrCreate net db, OutDone] @ evs, k, r)"
    proof (rule phase_ok_prefix[where k' = "known(cid \<mapsto> True)"])
      show "phase_ok E (known(cid \<mapsto> True)) (evs, k, r)"
        using Cons.IH[of "known(cid \<mapsto> True)"] unfolding rest .
    qed (use Inr in \<open>auto simp: surfaces_def\<close>)
    with Inr rest show ?thesis by simp
  qed
qed

lemma check_mounts_ok: "phase_ok E known (check_mounts E home net known ms)"
proof (induction ms arbitrary: known)
  case Nil
  show ?case by (simp add: phase_ok_def)
next
  case (Cons m ms)
  show ?case
  proof (cases "mount_FindOrCreate E home net m")
    case (Inl err)
    then show ?thesis by (simp add: phase_ok_def surfaces_def)
  next
    case (Inr cid)
    obtain evs k r where rest: "check_mounts E home net (known(cid \<mapsto> True)) ms = (evs, k, r)"
      by (cases "check_mounts E home net (known(cid \<mapsto> True)) ms")
    have "phase_ok E known
            ([OutPending [''checking'', Path m], CallMountFindOrCreate home net m, OutDone] @ evs, k, r)"
    proof (rule phase_ok_prefix[where k' = "known(cid \<mapsto> True)"])
      show "phase_ok E (known(cid \<mapsto> True)) (evs, k, r)"
        using Cons.IH[of "known(cid \<mapsto> True)"] unfolding rest .
    qed (use Inr in \<open>auto simp: surfaces_def\<close>)
    with Inr rest show ?thesis by simp
  qed
qed

lemma check_sites_ok: "phase_ok E known (check_sites E home net known ss)"
proof (induction ss arbitrary: known)
  case Nil
  show ?case by (simp add: phase_ok_def)
next
  case (Cons s ss)
  show ?case
  proof (cases "site_StartOrCreate E home net s")
    case (Inl err)
    then show ?thesis by (simp add: phase_ok_def surfaces_def)
  next
    case (Inr cid)
    obtain evs k r where rest: "check_sites E home net (known(cid \<mapsto> True)) ss = (evs, k, r)"
      by (cases "check_sites E home net (known(cid \<mapsto> True)) ss")
    have "phase_ok E known
            ([OutPending [''checking'', Hostname s], CallSiteStartOrCreate home net s, OutDone] @ evs, k, r)"
    proof (rule phase_ok_prefix[where k' = "known(cid \<mapsto> True)"])
      show "phase_ok E (known(cid \<mapsto> True)) (evs, k, r)"
        using Cons.IH[of "known(cid \<mapsto> True)"] unfolding rest .
    qed (use Inr in \<open>auto simp: surfaces_def\<close>)
    with Inr rest show ?thesis by simp
  qed
qed

lemma check_dynamodb_ok: "phase_ok E known (check_dynamodb E cfg net known)"
  by (auto simp: check_dynamodb_def phase_ok_def surfaces_def split: sum.splits)

lemma check_mailhog_ok: "phase_ok E known (check_mailhog E cfg net known)"
  by (auto simp: check_mailhog_def phase_ok_def surfaces_def split: sum.splits)

lemma fatal_step_stage: "fatal_step ev \<Longrightarrow> stage ev \<noteq> None"
  by (cases ev) simp_all

lemma phase_ok_output:
  "\<forall>ev \<in> set evs. stage ev = None \<Longrightarrow> phase_ok E known (evs, known, None)"
  by (auto simp: phase_ok_def surfaces_def in_stage_def dest: fatal_step_stage)

lemma provision_ok: "phase_ok E known (provision E home cfg net known)"
  unfolding provision_def
proof (intro phase_ok_and_then)
  show "phase_ok E known ([OutSuccess [''proxy ready''], OutInfo [''Checking databases...'']], known, None)"
    by (simp add: phase_ok_output)
  show "phase_ok E k (check_databases E net k (Databases cfg))" for k
    by (rule check_databases_ok)
  show "phase_ok E k
          (if 0 < length (Mounts cfg)
           then and_then ([OutInfo [''Checking mounts...''], FmtPrintln (length (Mounts cfg))], k, None)
                  (\<lambda>k. check_mounts E home net k (Mounts cfg))
           else ([], k, None))" for k
    by (simp add: phase_ok_and_then phase_ok_output check_mounts_ok del: length_greater_0_conv)
  show "phase_ok E k ([OutInfo [''Checking services...'']], k, None)" for k
    by (simp add: phase_ok_output)
  show "phase_ok E k (check_dynamodb E cfg net k)" for k
    by (rule check_dynamodb_ok)
  show "phase_ok E k (check_mailhog E cfg net k)" for k
    by (rule check_mailhog_ok)
  show "phase_ok E k
          (if 0 < length (Sites cfg)
           then and_then ([OutInfo [''Checking sites...'']], k, None)
                  (\<lambda>k. check_sites E home net k (Sites cfg))
           else ([], k, None))" for k
    by (simp add: phase_ok_and_then phase_ok_output check_sites_ok del: length_greater_0_conv)
qed

subsection \<open>The probe loop\<close>

lemma ping_loop_Some:
  assumes "ping_loop ping n = Some k"
  shows "n \<le> k \<and> ping k = None \<and> (\<forall>j. n \<le> j \<and> j < k \<longrightarrow> ping j \<noteq> None)"
proof (rule ping_loop.raw_induct
    [where P = "\<lambda>ping n k. n \<le> k \<and> ping k = None \<and> (\<forall>j. n \<le> j \<and> j < k \<longrightarrow> ping j \<noteq> None)",
     OF _ assms])
  fix loop :: "(nat \<Rightarrow> error option) \<Rightarrow> nat \<Rightarrow> nat option" and ping n k
  assume IH: "\<And>p m y. loop p m = Some y \<Longrightarrow>
                m \<le> y \<and> p y = None \<and> (\<forall>j. m \<le> j \<and> j < y \<longrightarrow> p j \<noteq> None)"
    and step: "(case ping n of None \<Rightarrow> Some n | Some err \<Rightarrow> loop ping (Suc n)) = Some k"
  show "n \<le> k \<and> ping k = None \<and> (\<forall>j. n \<le> j \<and> j < k \<longrightarrow> ping j \<noteq> None)"
  proof (cases "ping n")
    case None
    with step show ?thesis by auto
  next
    case (Some err)
    with step have "loop ping (Suc n) = Some k" by simp
    from IH[OF this] Some show ?thesis
      by (auto simp: le_Suc_eq Suc_le_eq dest: le_neq_implies_less)
  qed
qed

lemma ping_loop_reaches:
  "ping (n + d) = None \<Longrightarrow> \<forall>j<d. ping (n + j) \<noteq> None \<Longrightarrow> ping_loop ping n = Some (n + d)"
proof (induction d arbitrary: n)
  case 0
  then show ?case by (subst ping_loop.simps) simp
next
  case (Suc d)
  from Suc.prems(2) have "ping n \<noteq> None" by (metis add.right_neutral zero_less_Suc)
  then obtain err where err: "ping n = Some err" by auto
  have "ping_loop ping (Suc n) = Some (Suc n + d)"
  proof (rule Suc.IH)
    show "ping (Suc n + d) = None" using Suc.prems(1) by simp
    show "\<forall>j<d. ping (Suc n + j) \<noteq> None"
      using Suc.prems(2) by (metis Suc_less_eq add_Suc_shift)
  qed
  with err show ?case by (subst ping_loop.simps) simp
qed

lemma ping_loop_never: "\<forall>j. ping j \<noteq> None \<Longrightarrow> ping_loop ping n = None"
proof (rule ccontr)
  assume all: "\<forall>j. ping j \<noteq> None" and "ping_loop ping n \<noteq> None"
  then obtain k where "ping_loop ping n = Some k" by auto
  from ping_loop_Some[OF this] have "ping k = None" by simp
  with all[rule_format, of k] show False by simp
qed

lemma ping_loop_first:
  assumes "ping k = None"
  shows "\<exists>m\<le>k. ping_loop ping 0 = Some m"
proof -
  define m where "m = (LEAST j. ping j = None)"
  from assms have m: "ping m = None" "m \<le> k" "\<forall>j<m. ping j \<noteq> None"
    unfolding m_def by (auto intro: LeastI Least_le dest: not_less_Least)
  with ping_loop_reaches[of ping 0 m] show ?thesis by auto
qed

lemma update_not_Nil: "AList.update k v al \<noteq> []"
  by (cases al) auto

lemma build_sites_not_Nil: "ss \<noteq> [] \<or> sites \<noteq> [] \<Longrightarrow> build_sites ss sites \<noteq> []"
  by (induction ss arbitrary: sites) (auto simp: update_not_Nil)

lemma build_sites_Nil: "(build_sites ss [] = []) = (ss = [])"
  using build_sites_not_Nil[of ss "[]"] by (cases ss) auto

lemma updateProxy_events:
  assumes "updateProxy E cfg = Some (evs, r)"
  shows "in_stage 1 evs \<and> surfaces E evs (Returned r)"
proof (cases "Sites cfg = []")
  case True
  with assms show ?thesis by (simp add: updateProxy_def)
next
  case False
  then have ne: "build_sites (Sites cfg) [] \<noteq> []" by (simp add: build_sites_Nil)
  with assms obtain k where k: "ping_loop (Ping E) 0 = Some k"
    by (auto simp: updateProxy_def Let_def split: option.splits)
  have pings: "in_stage 1 (map CallPing xs) \<and> surfaces E (map CallPing xs) (Returned None)" for xs
    by (auto simp: in_stage_def surfaces_def)
  from assms ne k
  have evs: "evs = map CallPing [0..<Suc k] @ [CallApply (build_sites (Sites cfg) [])]"
    and r: "r = step_error E (CallApply (build_sites (Sites cfg) []))"
    by (auto simp: updateProxy_def Let_def split: sum.splits)
  have "surfaces E [CallApply (build_sites (Sites cfg) [])] (Returned r)"
    unfolding r by (simp add: surfaces_def)
  with pings[of "[0..<Suc k]"] show ?thesis
    unfolding evs by (simp add: surfaces_append del: upt_Suc)
qed

lemma edit_hosts_events: "in_stage 2 (fst (edit_hosts E cfg)) \<and> surfaces E (fst (edit_hosts E cfg)) (Returned (snd (edit_hosts E cfg)))"
  by (auto simp: edit_hosts_def Let_def running_msg_def surfaces_def
           split: sum.splits option.splits simp del: length_greater_0_conv)

lemma proxy_and_hosts_events:
  assumes "proxy_and_hosts E cfg = Some (evs, r)"
  shows "\<exists>b c. evs = b @ c \<and> in_stage 1 b \<and> in_stage 2 c \<and> surfaces E evs (Returned r)"
proof -
  from assms obtain pevs pr where p: "updateProxy E cfg = Some (pevs, pr)"
    by (auto simp: proxy_and_hosts_def split: option.splits)
  from updateProxy_events[OF p] have pe: "in_stage 1 pevs" "surfaces E pevs (Returned pr)"
    by simp_all
  let ?head = "[OutInfo [''Checking proxy...''], OutPending [''updating proxy'']]"
  have head: "surfaces E ?head (Returned None)" by (simp add: surfaces_def)
  show ?thesis
  proof (cases pr)
    case (Some err)
    with assms p have evs: "evs = (?head @ pevs @ [OutWarning]) @ []" and r: "r = Some err"
      by (simp_all add: proxy_and_hosts_def)
    have "surfaces E (?head @ pevs @ [OutWarning]) (Returned (Some err))"
      using pe(2) Some by (auto simp: surfaces_def)
    with pe(1) evs r show ?thesis by (intro exI[of _ "?head @ pevs @ [OutWarning]"] exI[of _ "[]"]) simp
  next
    case None
    obtain hevs hr where h: "edit_hosts E cfg = (hevs, hr)" by (cases "edit_hosts E cfg")
    with edit_hosts_events[of E cfg] have he: "in_stage 2 hevs" "surfaces E hevs (Returned hr)"
      by simp_all
    from assms p h None have evs: "evs = (?head @ pevs @ [OutDone]) @ hevs" and r: "r = hr"
      by (simp_all add: proxy_and_hosts_def)
    have "surfaces E (?head @ pevs @ [OutDone]) (Returned None)"
      using pe(2) None by (auto simp: surfaces_def)
    from this he(2) have "surfaces E ((?head @ pevs @ [OutDone]) @ hevs) (Returned hr)"
      by (rule surfaces_append)
    with pe(1) he(1) evs r show ?thesis
      by (intro exI[of _ "?head @ pevs @ [OutDone]"] exI[of _ hevs]) simp
  qed
qed

lemma staged_provisioning: "in_stage 0 a \<Longrightarrow> staged a"
  unfolding staged_def by (intro exI[of _ a] exI[of _ "[]"]) simp

lemma RunE_ok:
  assumes "RunE E home known = Some (evs, known', r)"
  shows "dom known \<subseteq> dom known' \<and> surfaces E evs (Returned r) \<and> staged evs"
proof (cases "config_Load E home")
  case (Inl err)
  with assms show ?thesis
    by (auto simp: RunE_def surfaces_def intro!: staged_provisioning)
next
  case cfg: (Inr cfg)
  let ?t1 = "[CallConfigLoad home, OutInfo [''Checking network...''], CallNetworkList (network_filter E)]"
  show ?thesis
  proof (cases "NetworkList E (network_filter E)")
    case (Inl err)
    with assms cfg show ?thesis
      by (auto simp: RunE_def surfaces_def intro!: staged_provisioning)
  next
    case nets: (Inr networks)
    have t1: "surfaces E ?t1 (Returned None)" using cfg nets by (simp add: surfaces_def)
    show ?thesis
    proof (cases "network_ID (find_network networks) = []")
      case True
      with assms cfg nets show ?thesis
        by (auto simp: RunE_def surfaces_def intro!: staged_provisioning)
    next
      case net: False
      let ?t2 = "?t1 @ [OutSuccess [''network ready''], OutInfo [''Checking proxy...''], CallFindAndStart]"
      show ?thesis
      proof (cases "FindAndStart E")
        case (Some err)
        with assms cfg nets net show ?thesis
          by (auto simp: RunE_def Let_def surfaces_def intro!: staged_provisioning split: if_splits)
      next
        case None
        have t2: "surfaces E ?t2 (Returned None)" "in_stage 0 ?t2"
          using cfg nets None by (simp_all add: surfaces_def)
        obtain pevs pk pr where
          pv: "provision E home cfg (network_ID (find_network networks)) known = (pevs, pk, pr)"
          by (cases "provision E home cfg (network_ID (find_network networks)) known")
        with provision_ok[of E known home cfg "network_ID (find_network networks)"]
        have pok: "in_stage 0 pevs" "dom known \<subseteq> dom pk" "surfaces E pevs (Returned pr)"
          by (simp_all add: phase_ok_def)
        show ?thesis
        proof (cases pr)
          case (Some err)
          with assms cfg nets net None pv
          have "evs = ?t2 @ pevs" "known' = pk" "r = Some err"
            by (simp_all add: RunE_def Let_def)
          with pok t2 Some surfaces_append[OF t2(1) pok(3)] show ?thesis
            by (auto intro!: staged_provisioning)
        next
          case prNone: None
          with assms cfg nets net None pv obtain hevs where
            ph: "proxy_and_hosts E cfg = Some (hevs, r)" and evs: "evs = ?t2 @ pevs @ hevs"
            and k: "known' = pk"
            by (auto simp: RunE_def Let_def split: option.splits)
          from proxy_and_hosts_events[OF ph] obtain b c where
            bc: "hevs = b @ c" "in_stage 1 b" "in_stage 2 c" "surfaces E hevs (Returned r)"
            by blast
          from pok(3) prNone have "surfaces E pevs (Returned None)" by simp
          from surfaces_append[OF t2(1) this] have "surfaces E (?t2 @ pevs) (Returned None)" .
          from surfaces_append[OF this bc(4)] evs have s: "surfaces E evs (Returned r)" by simp
          have "evs = (?t2 @ pevs) @ b @ c" using evs bc(1) by simp
          moreover have "in_stage 0 (?t2 @ pevs)" using t2(2) pok(1) by simp
          ultimately have "staged evs" using bc(2,3) unfolding staged_def by blast
          with s pok(2) k show ?thesis by simp
        qed
      qed
    qed
  qed
qed

lemma backup_each_events:
  "in_stage 3 (backup_each E home c name dbs) \<and>
   (\<forall>ev \<in> set (backup_each E home c name dbs). \<not> fatal_step ev)"
  by (induction dbs) (auto simp: Let_def split: option.splits)

lemma stop_and_remove_events:
  "in_stage 3 (fst (stop_and_remove E c)) \<and>
   surfaces E (fst (stop_and_remove E c))
     (case snd (stop_and_remove E c) of Return err \<Rightarrow> Returned (Some err) | _ \<Rightarrow> Returned None)"
  by (auto simp: stop_and_remove_def surfaces_def split: option.splits)

lemma surfaces_append_quiet:
  "\<forall>ev \<in> set xs. \<not> fatal_step ev \<Longrightarrow> surfaces E (xs @ ys) r = surfaces E ys r"
  by (auto simp: surfaces_def)

lemma sweep_body_events:
  "in_stage 3 (fst (sweep_body E home known c)) \<and>
   surfaces E (fst (sweep_body E home known c))
     (case snd (sweep_body E home known c) of Return err \<Rightarrow> Returned (Some err) | _ \<Rightarrow> Returned None)"
proof -
  obtain sevs sctl where sr: "stop_and_remove E c = (sevs, sctl)" by (cases "stop_and_remove E c")
  with stop_and_remove_events[of E c]
  have s: "in_stage 3 sevs"
    "surfaces E sevs (case sctl of Return err \<Rightarrow> Returned (Some err) | _ \<Rightarrow> Returned None)"
    by simp_all
  show ?thesis
    using s sr backup_each_events[of E home c]
    by (auto simp: sweep_body_def Let_def surfaces_Cons_quiet surfaces_append_quiet
             split: list.splits sum.splits)
qed

lemma sweep_loop_events:
  "in_stage 3 (fst (sweep_loop E home known cs)) \<and>
   surfaces E (fst (sweep_loop E home known cs)) (snd (sweep_loop E home known cs))"
proof (induction cs)
  case Nil
  show ?case by simp
next
  case (Cons c cs)
  obtain evs ctl where b: "sweep_body E home known c = (evs, ctl)" by (cases "sweep_body E home known c")
  obtain evs' r where l: "sweep_loop E home known cs = (evs', r)" by (cases "sweep_loop E home known cs")
  from sweep_body_events[of E home known c] b
  have body: "in_stage 3 evs"
    "surfaces E evs (case ctl of Return err \<Rightarrow> Returned (Some err) | _ \<Rightarrow> Returned None)"
    by simp_all
  have any: "surfaces E evs (Returned None) \<Longrightarrow> surfaces E evs x" for x
    by (auto simp: surfaces_def)
  show ?case
  proof (cases ctl)
    case Next
    with body Cons.IH b l show ?thesis by (simp add: surfaces_append)
  next
    case Break
    with body b show ?thesis by simp
  next
    case (Return err)
    with body b show ?thesis by simp
  next
    case Panic
    with body b any[of Panicked] show ?thesis by simp
  qed
qed

lemma PostRunE_events:
  "in_stage 3 (fst (PostRunE E home known)) \<and>
   surfaces E (fst (PostRunE E home known)) (snd (PostRunE E home known))"
proof (cases "ContainerList E (nitro_filter E)")
  case (Inl err)
  then show ?thesis by (simp add: PostRunE_def surfaces_def)
next
  case (Inr cs)
  have head: "surfaces E [CallContainerList (nitro_filter E)] (Returned None)"
    using Inr by (simp add: surfaces_def)
  from surfaces_append[OF head] sweep_loop_events[of E home known cs] Inr head
  show ?thesis
    by (auto simp: PostRunE_def split: prod.splits)
qed

subsection \<open>The order of the stages of a run\<close>

lemma ping_loop_now: "ping n = None \<Longrightarrow> ping_loop ping n = Some n"
  by (subst ping_loop.simps) simp

lemma ping_loop_later: "ping n = Some err \<Longrightarrow> ping_loop ping n = ping_loop ping (Suc n)"
  by (subst ping_loop.simps) simp

lemmas run_defs = execute_def RunE_def provision_def and_then_def check_dynamodb_def
  check_mailhog_def proxy_and_hosts_def updateProxy_def edit_hosts_def network_filter_def
  running_msg_def newline_def smiley_def

lemma slow_ping_loop: "ping_loop slow_ping 0 = Some 2"
proof -
  have "ping_loop slow_ping 0 = ping_loop slow_ping (Suc 0)"
    by (rule ping_loop_later[where err = "External ''not ready''"]) (simp add: slow_ping_def)
  also have "\<dots> = ping_loop slow_ping (Suc (Suc 0))"
    by (rule ping_loop_later[where err = "External ''not ready''"]) (simp add: slow_ping_def)
  also have "\<dots> = Some (Suc (Suc 0))"
    by (rule ping_loop_now) (simp add: slow_ping_def)
  finally show ?thesis by (simp add: numeral_2_eq_2)
qed

lemma full_env_run:
  "execute full_env ''/home/u'' Map.empty =
     Some ([CallConfigLoad ''/home/u'', OutInfo [''Checking network...''],
            CallNetworkList [(''label'', ''com.craftcms.nitro=true''), (''name'', ''nitro-network'')],
            OutSuccess [''network ready''], OutInfo [''Checking proxy...''], CallFindAndStart,
            OutSuccess [''proxy ready''], OutInfo [''Checking databases...''],
            OutInfo [''Checking services...''], OutInfo [''Checking sites...''],
            OutPending [''checking'', ''a.test''],
            CallSiteStartOrCreate ''/home/u'' ''net1'' \<lparr> Hostname = ''a.test'', Aliases = [''b.test''] \<rparr>,
            OutDone,
            OutInfo [''Checking proxy...''], OutPending [''updating proxy''],
            CallPing 0, CallPing 1, CallPing 2,
            CallApply [(''a.test'', \<lparr> site_Hostname = ''a.test'', site_Aliases = ''b.test'', site_Port = 8080 \<rparr>)],
            OutDone,
            CallIsUpdated ''/etc/hosts'' ''127.0.0.1'' [''a.test'', ''b.test''],
            CallExecutable,
            OutInfo [''Modifying hosts file (you might be prompted for your password)''],
            CallSudoRun [''nitro'', ''nitro'', ''hosts'', ''--hostnames=a.test,b.test''],
            OutInfo [''Nitro is up and running '' @ smiley],
            CallContainerList [(''label'', ''com.craftcms.nitro=true'')],
            OutInfo [''removing'', ''b''], CallContainerStop ''b'', CallContainerRemove ''b''],
           [''id-a.test'' \<mapsto> True], Returned None)"
  by (auto simp: run_defs sweep_defs slow_ping_loop one_site_def upt_rec full_env_def)

lemma in_stage_sorted:
  "in_stage n evs \<Longrightarrow> sorted (List.map_filter stage evs) \<and> set (List.map_filter stage evs) \<subseteq> {n}"
  by (induction evs) (auto simp: List.map_filter_simps split: option.splits)

lemma map_filter_append: "List.map_filter f (xs @ ys) = List.map_filter f xs @ List.map_filter f ys"
  by (simp add: List.map_filter_def)

lemma execute_ok:
  assumes "execute E home known = Some (evs, known', r)"
  shows "dom known \<subseteq> dom known' \<and> surfaces E evs r \<and>
         (\<exists>a d. evs = a @ d \<and> staged a \<and> in_stage 3 d \<and> (\<forall>i. touches i d \<longrightarrow> known' i = None))"
proof -
  from assms obtain revs rr where run: "RunE E home known = Some (revs, known', rr)"
    by (auto simp: execute_def split: option.splits prod.splits)
  from RunE_ok[OF run] have ok: "dom known \<subseteq> dom known'" "surfaces E revs (Returned rr)" "staged revs"
    by simp_all
  show ?thesis
  proof (cases rr)
    case (Some err)
    with assms run have "evs = revs @ []" "r = Returned (Some err)"
      by (simp_all add: execute_def)
    with ok Some show ?thesis by (intro conjI exI[of _ revs] exI[of _ "[]"]) simp_all
  next
    case None
    obtain pevs pr where post: "PostRunE E home known' = (pevs, pr)" by (cases "PostRunE E home known'")
    with PostRunE_events[of E home known'] have pe: "in_stage 3 pevs" "surfaces E pevs pr"
      by simp_all
    have untouched: "known' i = None" if "touches i pevs" for i
    proof (cases "ContainerList E (nitro_filter E)")
      case (Inl err)
      with post that show ?thesis by (auto simp: PostRunE_def touches_def)
    next
      case (Inr cs)
      with post that have "touches i (fst (sweep_loop E home known' cs))"
        by (auto simp: PostRunE_def touches_def split: if_splits prod.splits)
      from sweep_loop_touches[OF this] show ?thesis by blast
    qed
    from assms run None post have evs: "evs = revs @ pevs" and r: "r = pr"
      by (simp_all add: execute_def)
    from ok(2) None have "surfaces E revs (Returned None)" by simp
    from surfaces_append[OF this pe(2)] have "surfaces E evs r" by (simp add: evs r)
    with ok pe(1) evs untouched show ?thesis by blast
  qed
qed

lemma staged_sorted:
  assumes "staged a" and "in_stage 3 d"
  shows "sorted (List.map_filter stage (a @ d))"
proof -
  from assms(1) obtain x y z where a: "a = x @ y @ z" "in_stage 0 x" "in_stage 1 y" "in_stage 2 z"
    unfolding staged_def by blast
  from in_stage_sorted[OF a(2)] in_stage_sorted[OF a(3)] in_stage_sorted[OF a(4)]
    in_stage_sorted[OF assms(2)]
  show ?thesis
    unfolding a(1) by (simp add: map_filter_append sorted_append subset_singleton_iff) fastforce
qed

lemma in_stage_untouched: "n < 3 \<Longrightarrow> in_stage n evs \<Longrightarrow> \<not> touches i evs"
  by (fastforce simp: in_stage_def touches_def)

lemma staged_untouched: "staged a \<Longrightarrow> \<not> touches i a"
  unfolding staged_def
  using in_stage_untouched[of 0 _ i] in_stage_untouched[of 1 _ i] in_stage_untouched[of 2 _ i]
  by fastforce

text \<open>
  C5, as amended. In every run of the command that returns, the calls come in the order:
  prerequisites and provisioning, then the proxy synchronisation, then the hosts file,
  and the orphan sweep last. The sweep is the post-run hook, so the hosts file is edited
  before the sweep, not after it as the claim states.
\<close>

theorem proxy_hosts_sweep_order:
  assumes "execute E home known = Some (evs, known', r)"
  shows "sorted (List.map_filter stage evs)"
proof -
  from execute_ok[OF assms] obtain a d where "evs = a @ d" "staged a" "in_stage 3 d" by blast
  with staged_sorted[of a d] show ?thesis by simp
qed

theorem proxy_hosts_sweep_order_witness:
  "execute full_env ''/home/u'' Map.empty \<noteq> None \<and>
   List.map_filter stage (fst (the (execute full_env ''/home/u'' Map.empty))) =
     [0, 0, 0, 0, 1, 1, 1, 1, 2, 2, 2, 3, 3, 3] \<and>
   sorted (List.map_filter stage (fst (the (execute full_env ''/home/u'' Map.empty))))"
  using proxy_hosts_sweep_order[OF full_env_run]
  by (simp add: full_env_run List.map_filter_simps)

text \<open>In the run of \<open>full_env\<close> the order of the claim, sweep before hosts file, fails.\<close>

theorem sweep_before_hosts_counterexample:
  "\<not> sorted (List.map_filter claimed_stage (fst (the (execute full_env ''/home/u'' Map.empty))))"
  by (simp add: full_env_run List.map_filter_simps)

subsection \<open>Failures of the backup\<close>

lemma backup_each_stops_at_failure:
  "backup_Perform E (backup_opts E home c name db) = Some err \<Longrightarrow>
   backup_each E home c name (db # dbs) =
     [OutPending [''creating backup'', BackupName (backup_opts E home c name db)],
      CallBackupPerform (backup_opts E home c name db),
      OutWarning, OutInfo [''Unable to backup database'', db, Error_text err]]"
  by (simp add: Let_def)

text \<open>
  C2: the code departs from the claim. An orphaned database container has the databases
  \<open>one\<close> and \<open>two\<close>, and the backup of \<open>one\<close> fails. The claim has the sweep go on to
  back up \<open>two\<close>; in the code the \<open>break\<close> of line 118 leaves the loop over the
  databases, so no backup of \<open>two\<close> is attempted, and the container is then stopped and
  removed.
\<close>

theorem backup_failure_skips_later_databases:
  "backup_Databases backup_fails ''d'' ''mysql'' = Inr [''one'', ''two''] \<and>
   PostRunE backup_fails ''/home/u'' Map.empty =
     ([CallContainerList [(''label'', ''com.craftcms.nitro=true'')],
       OutInfo [''removing'', ''mysql''],
       CallBackupDatabases ''d'' ''mysql'',
       OutPending [''creating backup'', ''one-t0.sql''],
       CallBackupPerform (backup_opts backup_fails ''/home/u'' db_container ''mysql'' ''one''),
       OutWarning,
       OutInfo [''Unable to backup database'', ''one'', ''dump failed''],
       OutInfo [''Backups saved in'', ''/home/u/.nitro/mysql'', floppy_disk],
       CallContainerStop ''d'', CallContainerRemove ''d'',
       OutInfo [''removing'', ''b''], CallContainerStop ''b'', CallContainerRemove ''b''],
      Returned None)"
  by (simp add: sweep_defs backup_fails_def)

lemma listing_failure_ends_sweep:
  assumes "known (ID c) = None" and "label c (labels_Proxy E) = []" and "Names c = n0 # ns"
    and "label c (labels_DatabaseEngine E) \<noteq> []"
    and "backup_Databases E (ID c) (label c (labels_DatabaseCompatability E)) = Inl err"
  shows "sweep_loop E home known (c # cs) =
     ([OutInfo [''removing'', TrimLeft n0 ''/''],
       CallBackupDatabases (ID c) (label c (labels_DatabaseCompatability E)),
       OutInfo [''Unable to get the databases from'', TrimLeft n0 ''/'', Error_text err]],
      Returned None)"
  using assms by (simp add: sweep_body_def Let_def)

text \<open>
  C3: the code departs from the claim. Two orphaned containers are listed, a database
  container whose databases cannot be listed and, after it, a plain one. The claim has the
  sweep skip the first and tear down the second; in the code the \<open>break\<close> of line 89
  leaves the loop over the containers, so the second is neither stopped nor removed, and
  the hook returns nil.
\<close>

theorem listing_failure_abandons_sweep:
  "PostRunE listing_fails ''/home/u'' Map.empty =
     ([CallContainerList [(''label'', ''com.craftcms.nitro=true'')],
       OutInfo [''removing'', ''mysql''],
       CallBackupDatabases ''d'' ''mysql'',
       OutInfo [''Unable to get the databases from'', ''mysql'', ''exec failed'']],
      Returned None)"
  by (simp add: sweep_defs listing_fails_def)

subsection \<open>A run without its network or its proxy\<close>

text \<open>
  C6: the code departs from the claim. With no network of the name, \<open>RunE\<close> prints
  the guidance and returns nil with no further call, as the claim states. A nil return is
  a success for the command framework, which goes on to run \<open>PostRunE\<close>: the sweep is
  performed, on a known map this run has not filled, and the listed container is stopped
  and removed. The same holds when \<open>FindAndStart\<close> returns the error that line 196
  takes for a missing proxy.
\<close>

theorem abort_without_network_still_sweeps:
  "execute no_network ''/home/u'' Map.empty =
     Some ([CallConfigLoad ''/home/u'', OutInfo [''Checking network...''],
            CallNetworkList [(''label'', ''com.craftcms.nitro=true''), (''name'', ''nitro-network'')],
            OutInfo [''No network was found...'' @ newline @ ''run `nitro init` to get started''],
            CallContainerList [(''label'', ''com.craftcms.nitro=true'')],
            OutInfo [''removing'', ''b''], CallContainerStop ''b'', CallContainerRemove ''b''],
           Map.empty, Returned None)"
  by (simp add: run_defs sweep_defs no_network_def)

lemma abort_without_proxy_still_sweeps:
  "execute no_proxy ''/home/u'' Map.empty =
     Some ([CallConfigLoad ''/home/u'', OutInfo [''Checking network...''],
            CallNetworkList [(''label'', ''com.craftcms.nitro=true''), (''name'', ''nitro-network'')],
            OutSuccess [''network ready''], OutInfo [''Checking proxy...''], CallFindAndStart,
            OutInfo [''unable to find the nitro proxy...'' @ newline @ '' run `nitro init` to resolve''],
            CallContainerList [(''label'', ''com.craftcms.nitro=true'')],
            OutInfo [''removing'', ''b''], CallContainerStop ''b'', CallContainerRemove ''b''],
           Map.empty, Returned None)"
  by (simp add: run_defs sweep_defs no_proxy_def)

lemma RunE_no_network:
  assumes "config_Load E home = Inr cfg" and "NetworkList E (network_filter E) = Inr networks"
    and "network_ID (find_network networks) = []"
  shows "RunE E home known =
     Some ([CallConfigLoad home, OutInfo [''Checking network...''], CallNetworkList (network_filter E),
            OutInfo [''No network was found...'' @ newline @ ''run `nitro init` to get started'']],
           known, None)"
  using assms by (simp add: RunE_def)

lemma find_network_absent:
  "\<forall>n \<in> set networks. network_Name n \<noteq> ''nitro-network'' \<Longrightarrow> network_ID (find_network networks) = []"
  by (induction networks) auto

lemma RunE_no_proxy:
  assumes "config_Load E home = Inr cfg" and "NetworkList E (network_filter E) = Inr networks"
    and "network_ID (find_network networks) \<noteq> []"
    and "FindAndStart E = Some err" and "errors_Is err ErrNoProxyContainer"
  shows "RunE E home known =
     Some ([CallConfigLoad home, OutInfo [''Checking network...''], CallNetworkList (network_filter E),
            OutSuccess [''network ready''], OutInfo [''Checking proxy...''], CallFindAndStart,
            OutInfo [''unable to find the nitro proxy...'' @ newline @ '' run `nitro init` to resolve'']],
           known, None)"
  using assms by (simp add: RunE_def)

text \<open>A nil return of \<open>RunE\<close>, whatever its reason, is followed by the whole sweep.\<close>

lemma abort_then_sweep:
  assumes "RunE E home known = Some (evs, known', None)"
  shows "execute E home known =
     Some (evs @ fst (PostRunE E home known'), known', snd (PostRunE E home known'))"
  using assms by (simp add: execute_def case_prod_beta)

subsection \<open>Teardown after a failed backup\<close>

lemma backup_each_warns:
  "db \<in> set dbs \<Longrightarrow> backup_Perform E (backup_opts E home c name db) \<noteq> None \<Longrightarrow>
   OutWarning \<in> set (backup_each E home c name dbs)"
  by (induction dbs) (auto simp: Let_def split: option.splits)

text \<open>
  A backup of one database that fails is accepted: it is printed as a warning, and the
  teardown of the container goes on all the same.
\<close>

lemma teardown_despite_backup_failure:
  assumes "known (ID c) = None" and "label c (labels_Proxy E) = []" and "Names c = n0 # ns"
    and "label c (labels_DatabaseEngine E) \<noteq> []"
    and "backup_Databases E (ID c) (label c (labels_DatabaseCompatability E)) = Inr dbs"
    and "db \<in> set dbs"
    and "backup_Perform E (backup_opts E home c (TrimLeft n0 ''/'') db) \<noteq> None"
    and "ContainerStop E (ID c) = None" and "ContainerRemove E (ID c) = None"
  shows "\<exists>pre. OutWarning \<in> set pre \<and>
           sweep_loop E home known (c # cs) =
             (pre @ [CallContainerStop (ID c), CallContainerRemove (ID c)] @
              fst (sweep_loop E home known cs), snd (sweep_loop E home known cs))"
proof -
  let ?name = "TrimLeft n0 ''/''"
  let ?pre = "[OutInfo [''removing'', ?name],
               CallBackupDatabases (ID c) (label c (labels_DatabaseCompatability E))] @
              backup_each E home c ?name dbs @
              [OutInfo [''Backups saved in'', filepath_Join E [home, ''.nitro'', ?name], floppy_disk]]"
  have sr: "stop_and_remove E c = ([CallContainerStop (ID c), CallContainerRemove (ID c)], Next)"
    using assms(8,9) by (simp add: stop_and_remove_def)
  have body: "sweep_body E home known c =
      (?pre @ [CallContainerStop (ID c), CallContainerRemove (ID c)], Next)"
    using assms(1-5) sr by (simp add: sweep_body_def Let_def)
  have "OutWarning \<in> set ?pre"
    using backup_each_warns[OF assms(6,7)] by simp
  moreover have "sweep_loop E home known (c # cs) =
      (?pre @ [CallContainerStop (ID c), CallContainerRemove (ID c)] @
       fst (sweep_loop E home known cs), snd (sweep_loop E home known cs))"
    using body by (simp add: case_prod_beta)
  ultimately show ?thesis by blast
qed

lemma listing_failure_no_teardown:
  assumes listed: "ContainerList E (nitro_filter E) = Inr cs"
    and ids: "distinct (map ID cs)"
    and c: "c \<in> set cs" and lost: "listing_failure E c"
  shows "CallContainerStop (ID c) \<notin> set (fst (PostRunE E home known)) \<and>
         CallContainerRemove (ID c) \<notin> set (fst (PostRunE E home known))"
proof -
  have "\<not> touches (ID c) (fst (sweep_loop E home known cs))"
  proof
    assume "touches (ID c) (fst (sweep_loop E home known cs))"
    from sweep_loop_touches[OF this] obtain d where
      d: "d \<in> set cs" "ID d = ID c" "\<not> listing_failure E d" by blast
    from ids c d(1,2) have "d = c" by (meson distinct_map inj_onD)
    with d(3) lost show False by simp
  qed
  with listed show ?thesis
    by (auto simp: PostRunE_def touches_def split: prod.splits)
qed

text \<open>
  C4: the code departs from the claim. The backup failure that is not accepted, the one
  the sweep does not go on from, is the listing of the databases that fails. The claim has
  the teardown of that container aborted while the rest of the sweep goes on. In the code
  the container is indeed neither stopped nor removed, but the \<open>break\<close> of line 89
  ends the whole sweep: the orphan listed after it, which has no failure of its own, is
  left running as well, and the hook returns nil.
\<close>

theorem unaccepted_failure_ends_whole_sweep:
  "ContainerList listing_fails (nitro_filter listing_fails) = Inr [db_container, plain ''b''] \<and>
   listing_failure listing_fails db_container \<and>
   CallContainerStop ''d'' \<notin> set (fst (PostRunE listing_fails ''/home/u'' Map.empty)) \<and>
   CallContainerRemove ''d'' \<notin> set (fst (PostRunE listing_fails ''/home/u'' Map.empty)) \<and>
   label (plain ''b'') (labels_Proxy listing_fails) = [] \<and>
   \<not> listing_failure listing_fails (plain ''b'') \<and>
   ContainerStop listing_fails ''b'' = None \<and> ContainerRemove listing_fails ''b'' = None \<and>
   CallContainerStop ''b'' \<notin> set (fst (PostRunE listing_fails ''/home/u'' Map.empty)) \<and>
   CallContainerRemove ''b'' \<notin> set (fst (PostRunE listing_fails ''/home/u'' Map.empty)) \<and>
   snd (PostRunE listing_fails ''/home/u'' Map.empty) = Returned None"
  by (simp add: sweep_defs listing_failure_def listing_fails_def)

subsection \<open>The proxy synchronisation\<close>

text \<open>
  C7, as amended. The probe loop has no exit but a probe that succeeds; it does not look
  at the context. With a site declared, the synchronisation returns exactly when some
  probe succeeds, and then it has made the probes up to the first that succeeds, and one
  apply call. When every probe fails, as under a cancelled context, it does not return.
\<close>

theorem probe_loop_returns_iff_a_probe_succeeds:
  assumes "Sites cfg \<noteq> []"
  shows "((\<exists>res. updateProxy E cfg = Some res) = (\<exists>k. Ping E k = None)) \<and>
         (\<forall>k. Ping E k = None \<and> (\<forall>j<k. Ping E j \<noteq> None) \<longrightarrow>
            (\<exists>r. updateProxy E cfg =
               Some (map CallPing [0..<Suc k] @ [CallApply (build_sites (Sites cfg) [])], r)))"
proof -
  from assms have ne: "build_sites (Sites cfg) [] \<noteq> []" by (simp add: build_sites_Nil)
  have returns: "(\<exists>res. updateProxy E cfg = Some res) = (\<exists>k. Ping E k = None)"
  proof
    assume "\<exists>res. updateProxy E cfg = Some res"
    with ne obtain k where "ping_loop (Ping E) 0 = Some k"
      by (auto simp: updateProxy_def Let_def split: option.splits)
    from ping_loop_Some[OF this] show "\<exists>k. Ping E k = None" by blast
  next
    assume "\<exists>k. Ping E k = None"
    then obtain k where "Ping E k = None" by blast
    from ping_loop_first[of "Ping E" k, OF this] obtain m where "ping_loop (Ping E) 0 = Some m" by blast
    with ne show "\<exists>res. updateProxy E cfg = Some res"
      by (simp add: updateProxy_def Let_def)
  qed
  have first: "\<exists>r. updateProxy E cfg =
        Some (map CallPing [0..<Suc k] @ [CallApply (build_sites (Sites cfg) [])], r)"
    if "Ping E k = None" "\<forall>j<k. Ping E j \<noteq> None" for k
  proof -
    from ping_loop_reaches[of "Ping E" 0 k] that have "ping_loop (Ping E) 0 = Some k" by simp
    with ne show ?thesis by (simp add: updateProxy_def Let_def)
  qed
  from returns first show ?thesis by blast
qed

lemma one_site_sync: "updateProxy full_env one_site =
    Some ([CallPing 0, CallPing 1, CallPing 2,
           CallApply [(''a.test'', \<lparr> site_Hostname = ''a.test'', site_Aliases = ''b.test'', site_Port = 8080 \<rparr>)]],
          None)"
  by (simp add: updateProxy_def one_site_def full_env_def quiet_def slow_ping_loop upt_rec)

theorem probe_loop_returns_iff_a_probe_succeeds_witness:
  "Sites one_site \<noteq> [] \<and> Ping full_env 2 = None \<and>
   Ping full_env 0 \<noteq> None \<and> Ping full_env 1 \<noteq> None \<and>
   (\<exists>res. updateProxy full_env one_site = Some res) \<and>
   (\<exists>r. updateProxy full_env one_site =
      Some (map CallPing [0..<Suc 2] @ [CallApply (build_sites (Sites one_site) [])], r))"
  using probe_loop_returns_iff_a_probe_succeeds [of one_site full_env]
  by (simp add: one_site_sync) (simp add: one_site_def full_env_def quiet_def slow_ping_def upt_rec)

text \<open>Every probe of \<open>cancelled\<close> fails; with one site declared, the synchronisation does not return.\<close>

theorem cancelled_probe_loop_counterexample:
  "Sites one_site \<noteq> [] \<and> Ping cancelled 0 \<noteq> None \<and> Ping cancelled 1000 \<noteq> None \<and>
   updateProxy cancelled one_site = None"
proof -
  have "ping_loop cancelled_ping 0 = None"
    by (rule ping_loop_never) (simp add: cancelled_ping_def)
  then show ?thesis
    by (simp add: updateProxy_def one_site_def cancelled_def quiet_def cancelled_ping_def)
qed

text \<open>
  C8. With no site declared, the synchronisation returns nil and its trace is empty: it
  makes no probe and no apply call.
\<close>

theorem no_sites_no_proxy_calls:
  "Sites cfg = [] \<Longrightarrow> updateProxy E cfg = Some ([], None)"
  by (simp add: updateProxy_def)

theorem no_sites_no_proxy_calls_witness:
  "Sites no_sites = [] \<and> updateProxy cancelled no_sites = Some ([], None)"
  using no_sites_no_proxy_calls [of no_sites cancelled] by (simp add: no_sites_def)

subsection \<open>The known map from run to run\<close>

lemma execute_shields:
  assumes "execute E home known = Some (evs, known', r)" and "i \<in> dom known"
  shows "CallContainerStop i \<notin> set evs \<and> CallContainerRemove i \<notin> set evs"
proof -
  from execute_ok[OF assms(1)] obtain a d where
    ok: "dom known \<subseteq> dom known'" "evs = a @ d" "staged a" "\<forall>i. touches i d \<longrightarrow> known' i = None"
    by blast
  from assms(2) ok(1) have "known' i \<noteq> None" by blast
  with ok(4) have "\<not> touches i d" by auto
  with staged_untouched[OF ok(3), of i] ok(2) show ?thesis by (simp add: touches_def)
qed

lemma runs_ok:
  assumes "runs Es home known = Some rs"
  shows "(rs \<noteq> [] \<longrightarrow> fst (hd rs) = known) \<and>
         (\<forall>j. Suc j < length rs \<longrightarrow>
            (\<exists>evs r. execute (Es ! j) home (fst (rs ! j)) = Some (evs, fst (rs ! Suc j), r)) \<and>
            dom (fst (rs ! j)) \<subseteq> dom (fst (rs ! Suc j))) \<and>
         (\<forall>(k, evs, r) \<in> set rs. \<forall>i \<in> dom k.
            CallContainerStop i \<notin> set evs \<and> CallContainerRemove i \<notin> set evs)"
  using assms
proof (induction Es arbitrary: known rs)
  case Nil
  then show ?case by simp
next
  case (Cons E Es)
  from Cons.prems obtain evs known' r rest where
    ex: "execute E home known = Some (evs, known', r)"
    and rest: "runs Es home known' = Some rest"
    and rs: "rs = (known, evs, r) # rest"
    by (auto split: option.splits)
  note IH = Cons.IH[OF rest]
  from execute_ok[OF ex] have mono: "dom known \<subseteq> dom known'" by simp
  have step: "(\<exists>evs r. execute ((E # Es) ! j) home (fst (rs ! j)) = Some (evs, fst (rs ! Suc j), r)) \<and>
              dom (fst (rs ! j)) \<subseteq> dom (fst (rs ! Suc j))"
    if j: "Suc j < length rs" for j
  proof (cases j)
    case 0
    with j rs have "rest \<noteq> []" by auto
    with IH have "fst (hd rest) = known'" by simp
    with \<open>rest \<noteq> []\<close> have "fst (rest ! 0) = known'" by (simp add: hd_conv_nth)
    with 0 rs ex mono show ?thesis by auto
  next
    case (Suc j')
    with j rs have "Suc j' < length rest" by simp
    with IH Suc rs show ?thesis by simp
  qed
  have shield: "\<forall>(k, evs, r) \<in> set rs. \<forall>i \<in> dom k.
      CallContainerStop i \<notin> set evs \<and> CallContainerRemove i \<notin> set evs"
    using IH execute_shields[OF ex] rs by auto
  from step shield rs show ?case by simp
qed

text \<open>
  C9, as amended. The map of known containers belongs to the process, not to a run. It is
  empty when the first run of a process starts; every later run starts on the map the run
  before it left, which holds at least the identifiers that run started on; and no run
  stops or removes a container whose identifier is in the map it starts on. So what one
  run records does shield containers from the sweep of a later run.
\<close>

theorem known_containers_are_process_wide:
  assumes "process Es home = Some rs"
  shows "(rs \<noteq> [] \<longrightarrow> fst (hd rs) = Map.empty) \<and>
         (\<forall>j. Suc j < length rs \<longrightarrow>
            (\<exists>evs r. execute (Es ! j) home (fst (rs ! j)) = Some (evs, fst (rs ! Suc j), r)) \<and>
            dom (fst (rs ! j)) \<subseteq> dom (fst (rs ! Suc j))) \<and>
         (\<forall>(k, evs, r) \<in> set rs. \<forall>i \<in> dom k.
            CallContainerStop i \<notin> set evs \<and> CallContainerRemove i \<notin> set evs)"
  using runs_ok[of Es home Map.empty rs] assms by (simp add: process_def)

lemma declares_db_run:
  "execute declares_db ''/home/u'' Map.empty =
     Some ([CallConfigLoad ''/home/u'', OutInfo [''Checking network...''],
            CallNetworkList [(''label'', ''com.craftcms.nitro=true''), (''name'', ''nitro-network'')],
            OutSuccess [''network ready''], OutInfo [''Checking proxy...''], CallFindAndStart,
            OutSuccess [''proxy ready''], OutInfo [''Checking databases...''],
            OutPending [''checking'', ''mysql.database.nitro''],
            CallDatabaseStartOrCreate ''net1'' (DatabaseSpec ''mysql''),
            OutDone,
            OutInfo [''Checking services...''],
            OutInfo [''Checking proxy...''], OutPending [''updating proxy''], OutDone,
            OutInfo [''Nitro is up and running '' @ smiley],
            CallContainerList [(''label'', ''com.craftcms.nitro=true'')]],
           [''id-mysql'' \<mapsto> True], Returned None)"
  by (auto simp: run_defs sweep_defs one_database_def declares_db_def)

lemma declares_nothing_later_run:
  "execute declares_nothing ''/home/u'' [''id-mysql'' \<mapsto> True] =
     Some ([CallConfigLoad ''/home/u'', OutInfo [''Checking network...''],
            CallNetworkList [(''label'', ''com.craftcms.nitro=true''), (''name'', ''nitro-network'')],
            OutSuccess [''network ready''], OutInfo [''Checking proxy...''], CallFindAndStart,
            OutSuccess [''proxy ready''], OutInfo [''Checking databases...''],
            OutInfo [''Checking services...''],
            OutInfo [''Checking proxy...''], OutPending [''updating proxy''], OutDone,
            OutInfo [''Nitro is up and running '' @ smiley],
            CallContainerList [(''label'', ''com.craftcms.nitro=true'')]],
           [''id-mysql'' \<mapsto> True], Returned None)"
  by (auto simp: run_defs sweep_defs no_sites_def declares_nothing_def)

lemma declares_nothing_first_run:
  "execute declares_nothing ''/home/u'' Map.empty =
     Some ([CallConfigLoad ''/home/u'', OutInfo [''Checking network...''],
            CallNetworkList [(''label'', ''com.craftcms.nitro=true''), (''name'', ''nitro-network'')],
            OutSuccess [''network ready''], OutInfo [''Checking proxy...''], CallFindAndStart,
            OutSuccess [''proxy ready''], OutInfo [''Checking databases...''],
            OutInfo [''Checking services...''],
            OutInfo [''Checking proxy...''], OutPending [''updating proxy''], OutDone,
            OutInfo [''Nitro is up and running '' @ smiley],
            CallContainerList [(''label'', ''com.craftcms.nitro=true'')],
            OutInfo [''removing'', ''id-mysql''],
            CallContainerStop ''id-mysql'', CallContainerRemove ''id-mysql''],
           Map.empty, Returned None)"
  by (auto simp: run_defs sweep_defs no_sites_def declares_nothing_def)

theorem known_containers_are_process_wide_witness:
  "process [declares_db, declares_nothing] ''/home/u'' \<noteq> None \<and>
   fst (hd (the (process [declares_db, declares_nothing] ''/home/u''))) = Map.empty \<and>
   dom (fst (the (process [declares_db, declares_nothing] ''/home/u'') ! 0)) \<subseteq>
     dom (fst (the (process [declares_db, declares_nothing] ''/home/u'') ! 1)) \<and>
   CallContainerStop ''id-mysql'' \<notin>
     set (fst (snd (the (process [declares_db, declares_nothing] ''/home/u'') ! 1)))"
  using known_containers_are_process_wide [of "[declares_db, declares_nothing]" "''/home/u''"
      "the (process [declares_db, declares_nothing] ''/home/u'')"]
  by (simp add: process_def declares_db_run declares_nothing_later_run)

text \<open>
  The second run declares nothing, yet it starts on a map that is not empty, and its sweep
  leaves alone the container the first run recorded; run alone, it removes it.
\<close>

theorem known_containers_leak_counterexample:
  "Databases no_sites = [] \<and> Mounts no_sites = [] \<and> Sites no_sites = [] \<and>
   config_Load declares_nothing ''/home/u'' = Inr no_sites \<and>
   fst (the (process [declares_db, declares_nothing] ''/home/u'') ! 1) \<noteq> Map.empty \<and>
   CallContainerStop ''id-mysql'' \<notin>
     set (fst (snd (the (process [declares_db, declares_nothing] ''/home/u'') ! 1))) \<and>
   CallContainerStop ''id-mysql'' \<in>
     set (fst (snd (the (process [declares_nothing] ''/home/u'') ! 0)))"
  by (simp add: process_def declares_db_run declares_nothing_later_run declares_nothing_first_run)
     (simp add: no_sites_def declares_nothing_def)

subsection \<open>The error a run returns\<close>






text \<open>
  On the windows branch the subprocess fails and the hook returns nil: line 356 returns
  the variable \<open>err\<close> of line 340, which is nil, not the error of \<open>c.Run ()\<close>. The
  other branch, line 362, returns the error of its call.
\<close>

lemma windows_hosts_failure_returns_nil:
  "exec_Run windows_fails [''nitro'', ''hosts'', ''--hostnames=a.test,b.test''] =
     Some (External ''exit status 1'') \<and>
   edit_hosts windows_fails one_site =
     ([CallIsUpdated (''C:'' @ backslash @ ''Windows'' @ backslash @ ''System32'' @ backslash @
                      ''Drivers'' @ backslash @ ''etc'' @ backslash @ ''hosts'')
         ''127.0.0.1'' [''a.test'', ''b.test''],
       CallExecutable,
       CallExecRun [''nitro'', ''hosts'', ''--hostnames=a.test,b.test'']], None)"
  by (simp add: edit_hosts_def one_site_def windows_fails_def quiet_def)

end
